theory Spec2Isabelle
  imports Main "HOL-Library.Word" "HOL-Library.Signed_Division" "HOL-Library.Sublist"
begin

section \<open>Go values\<close>

text \<open>
  Go's \<open>int\<close> is a 64-bit two's-complement integer on the 64-bit targets the program is
  built for: \<open>+\<close>, \<open>-\<close> and \<open>*\<close> wrap around, comparisons are signed and \<open>/\<close>
  truncates towards zero.  An \<open>error\<close> value is represented by its message
  (\<open>err.Error()\<close>); the \<open>nil\<close> error is \<open>None\<close>.
\<close>

type_synonym goint = "64 word"
type_synonym error = string
type_synonym addr = nat

definition go_div :: "goint \<Rightarrow> goint \<Rightarrow> goint" where
  "go_div a b = word_of_int (sint a sdiv sint b)"

text \<open>Run-time panics of the Go code are values of the model.\<close>

datatype panic = NilDereference | SliceBoundsOutOfRange | IndexOutOfRange

section \<open>Slices of strings and the heap\<close>

text \<open>
  A \<open>[]string\<close> value is a slice header: a pointer to a backing array, a length and a
  capacity.  The slices of the output sink always start at the first element of their
  array.  The heap holds the backing arrays, the \<open>sharedOutput\<close> objects and the
  package-level variable \<open>instanceCounter\<close> of package \<open>terminal\<close>.
\<close>

record slice =
  sl_ptr :: addr
  sl_len :: nat
  sl_cap :: nat

text \<open>\<open>type sharedOutput struct { mu; lines []string; done bool; err error }\<close>.
  The mutex makes each method one atomic step; it carries no data.  The field \<open>done\<close> is
  called \<open>done_flag\<close> here (\<open>done\<close> is reserved).\<close>

record sharedOutput =
  lines :: slice
  done_flag :: bool
  err :: "error option"

record heap =
  arrays :: "addr \<Rightarrow> string list"
  sinks :: "addr \<Rightarrow> sharedOutput"
  fresh :: addr
  instanceCounter :: goint

text \<open>The elements of a slice: the first \<open>len\<close> cells of its backing array.\<close>

definition sl_elems :: "heap \<Rightarrow> slice \<Rightarrow> string list" where
  "sl_elems h s = take (sl_len s) (arrays h (sl_ptr s))"

text \<open>A slice is well formed in a heap when its array is allocated and has \<open>cap\<close> cells.\<close>

definition sl_ok :: "heap \<Rightarrow> slice \<Rightarrow> bool" where
  "sl_ok h s \<longleftrightarrow>
     sl_len s \<le> sl_cap s \<and> length (arrays h (sl_ptr s)) = sl_cap s \<and> sl_ptr s < fresh h"

text \<open>\<open>make([]string, n)\<close>: a fresh array of \<open>n\<close> empty strings.\<close>

definition make_slice :: "heap \<Rightarrow> nat \<Rightarrow> slice \<times> heap" where
  "make_slice h n =
     (\<lparr>sl_ptr = fresh h, sl_len = n, sl_cap = n\<rparr>,
      h\<lparr>arrays := (arrays h)(fresh h := replicate n []), fresh := Suc (fresh h)\<rparr>)"

text \<open>\<open>copy(dst, src)\<close> copies \<open>min(len(dst), len(src))\<close> elements into the array of \<open>dst\<close>.\<close>

definition copy_slice :: "heap \<Rightarrow> slice \<Rightarrow> slice \<Rightarrow> heap" where
  "copy_slice h dst src =
     (let n = min (sl_len dst) (sl_len src);
          a = arrays h (sl_ptr dst)
      in h\<lparr>arrays := (arrays h)(sl_ptr dst := take n (sl_elems h src) @ drop n a)\<rparr>)"

text \<open>
  \<open>append(s, x)\<close> writes in place when the capacity allows and otherwise moves the
  elements to a fresh, larger array.  The new capacity is chosen by the Go runtime; its
  growth rule \<open>grow\<close> is a parameter, and the array always has room for the new element.
\<close>

definition append_slice :: "(nat \<Rightarrow> nat) \<Rightarrow> heap \<Rightarrow> slice \<Rightarrow> string \<Rightarrow> slice \<times> heap" where
  "append_slice grow h s x =
     (if sl_len s < sl_cap s
      then (s\<lparr>sl_len := Suc (sl_len s)\<rparr>,
            h\<lparr>arrays := (arrays h)(sl_ptr s := (arrays h (sl_ptr s))[sl_len s := x])\<rparr>)
      else
        (let c = max (Suc (sl_len s)) (grow (sl_cap s))
         in (\<lparr>sl_ptr = fresh h, sl_len = Suc (sl_len s), sl_cap = c\<rparr>,
             h\<lparr>arrays := (arrays h)(fresh h :=
                   sl_elems h s @ [x] @ replicate (c - Suc (sl_len s)) []),
               fresh := Suc (fresh h)\<rparr>)))"

text \<open>\<open>s[i] = v\<close>: an indexed assignment through a slice; it panics out of range.\<close>

definition slice_set :: "heap \<Rightarrow> slice \<Rightarrow> nat \<Rightarrow> string \<Rightarrow> panic + heap" where
  "slice_set h s i v =
     (if i < sl_len s
      then Inr (h\<lparr>arrays := (arrays h)(sl_ptr s := (arrays h (sl_ptr s))[i := v])\<rparr>)
      else Inl IndexOutOfRange)"

section \<open>The output sink (\<open>sharedOutput\<close>)\<close>

text \<open>
  \<open>func (s *sharedOutput) addLine(line string) { s.lines = append(s.lines, line) }\<close>
\<close>

definition addLine :: "(nat \<Rightarrow> nat) \<Rightarrow> heap \<Rightarrow> addr \<Rightarrow> string \<Rightarrow> heap" where
  "addLine grow h p line =
     (let (s', h') = append_slice grow h (lines (sinks h p)) line
      in h'\<lparr>sinks := (sinks h')(p := (sinks h' p)\<lparr>lines := s'\<rparr>)\<rparr>)"

text \<open>
  \<open>getLines\<close>: \<open>result := make([]string, len(s.lines)); copy(result, s.lines); return result\<close>.
\<close>

definition getLines :: "heap \<Rightarrow> addr \<Rightarrow> slice \<times> heap" where
  "getLines h p =
     (let (result, h') = make_slice h (sl_len (lines (sinks h p)))
      in (result, copy_slice h' result (lines (sinks h' p))))"

text \<open>\<open>setDone\<close>: \<open>s.done = true; s.err = err\<close>.\<close>

definition setDone :: "heap \<Rightarrow> addr \<Rightarrow> error option \<Rightarrow> heap" where
  "setDone h p e = h\<lparr>sinks := (sinks h)(p := (sinks h p)\<lparr>done_flag := True, err := e\<rparr>)\<rparr>"

text \<open>\<open>isDone\<close>: \<open>return s.done, s.err\<close>.\<close>

definition isDone :: "heap \<Rightarrow> addr \<Rightarrow> bool \<times> error option" where
  "isDone h p = (done_flag (sinks h p), err (sinks h p))"

text \<open>
  The operations that reach one sink, in the order in which its lock serialises them.
  A snapshot leaves its result behind as a fresh array.
\<close>

datatype sink_op = AddLine string | SetDone "error option" | GetLines

fun sink_step :: "(nat \<Rightarrow> nat) \<Rightarrow> addr \<Rightarrow> heap \<Rightarrow> sink_op \<Rightarrow> heap" where
  "sink_step grow p h (AddLine line) = addLine grow h p line"
| "sink_step grow p h (SetDone e) = setDone h p e"
| "sink_step grow p h GetLines = snd (getLines h p)"

definition sink_run :: "(nat \<Rightarrow> nat) \<Rightarrow> addr \<Rightarrow> heap \<Rightarrow> sink_op list \<Rightarrow> heap" where
  "sink_run grow p h ops = foldl (sink_step grow p) h ops"

text \<open>What a snapshot taken now would contain.\<close>

definition snapshot :: "heap \<Rightarrow> addr \<Rightarrow> string list" where
  "snapshot h p = (let (r, h') = getLines h p in sl_elems h' r)"

section \<open>Helpers from the standard library\<close>

text \<open>\<open>strings.Join(elems, sep)\<close>.\<close>

fun Join :: "string list \<Rightarrow> string \<Rightarrow> string" where
  "Join [] sep = []"
| "Join [x] sep = x"
| "Join (x # y # ys) sep = x @ sep @ Join (y # ys) sep"

definition HasPrefix :: "string \<Rightarrow> string \<Rightarrow> bool" where
  "HasPrefix s pre \<longleftrightarrow> length pre \<le> length s \<and> take (length pre) s = pre"

definition TrimPrefix :: "string \<Rightarrow> string \<Rightarrow> string" where
  "TrimPrefix s pre = (if HasPrefix s pre then drop (length pre) s else s)"

text \<open>\<open>strings.ToUpper\<close> on ASCII text; the code applies it to one letter \<open>a\<close>..\<open>z\<close>.\<close>

definition is_lower :: "char \<Rightarrow> bool" where
  "is_lower c \<longleftrightarrow> (97::nat) \<le> of_char c \<and> of_char c \<le> (122::nat)"

definition ToUpper :: "string \<Rightarrow> string" where
  "ToUpper s = map (\<lambda>c. if is_lower c then char_of (of_char c - (32::nat)) else c) s"

text \<open>\<open>len(xs)\<close> as a Go \<open>int\<close>.\<close>

definition go_len :: "'a list \<Rightarrow> goint" where
  "go_len xs = of_nat (length xs)"

text \<open>The slice expression \<open>xs[low:]\<close>; it panics unless \<open>0 <= low <= len(xs)\<close>.\<close>

definition slice_from :: "string list \<Rightarrow> goint \<Rightarrow> panic + string list" where
  "slice_from xs low =
     (if 0 \<le>s low \<and> low \<le>s go_len xs then Inr (drop (unat low) xs)
      else Inl SliceBoundsOutOfRange)"

section \<open>Key bindings (package \<open>config\<close>)\<close>

text \<open>
  The fields of \<open>Keybindings\<close> that the terminal modal reads.  \<open>Config\<close> and
  \<open>Keybindings\<close> are reached through pointers, which may be \<open>nil\<close>.
\<close>

record GlobalKeys =
  Quit :: string
  QuitAlt :: string
  MoveUp :: string
  MoveDown :: string
  MoveUpAlt :: string
  MoveDownAlt :: string

record ListKeys =
  Top :: string
  Bottom :: string
  PageUp :: string
  PageDown :: string

record Keybindings =
  Global :: GlobalKeys
  List :: ListKeys

record Config =
  Keybindings :: "Keybindings option"

text \<open>\<open>DefaultKeybindings\<close>, restricted to these fields.\<close>

definition DefaultKeybindings :: Keybindings where
  "DefaultKeybindings =
     \<lparr>Global = \<lparr>Quit = ''esc'', QuitAlt = ''q'', MoveUp = ''k'', MoveDown = ''j'',
                 MoveUpAlt = ''up'', MoveDownAlt = ''down''\<rparr>,
      List = \<lparr>Top = ''g'', Bottom = ''G'', PageUp = ''ctrl+u'', PageDown = ''ctrl+d''\<rparr>\<rparr>"

text \<open>\<open>func (c *Config) Keys() *Keybindings { return c.Keybindings }\<close>\<close>

definition Keys :: "Config option \<Rightarrow> panic + Keybindings option" where
  "Keys c = (case c of None \<Rightarrow> Inl NilDereference | Some cfg \<Rightarrow> Inr (Keybindings cfg))"

text \<open>Reading a field through the pointer \<open>kb\<close> panics when it is \<open>nil\<close>.\<close>

definition deref_keys :: "Config option \<Rightarrow> panic + Keybindings" where
  "deref_keys c =
     (case Keys c of Inl e \<Rightarrow> Inl e
      | Inr None \<Rightarrow> Inl NilDereference
      | Inr (Some kb) \<Rightarrow> Inr kb)"

definition normalizeBinding :: "string \<Rightarrow> string" where
  "normalizeBinding binding =
     (if HasPrefix binding ''shift+''
      then (let letter = TrimPrefix binding ''shift+''
            in if length letter = 1 \<and> is_lower (letter ! 0) then ToUpper letter else binding)
      else binding)"

definition Matches :: "string \<Rightarrow> string \<Rightarrow> bool" where
  "Matches key binding \<longleftrightarrow> key = normalizeBinding binding"

fun MatchesAny :: "string \<Rightarrow> string list \<Rightarrow> bool" where
  "MatchesAny key [] = False"
| "MatchesAny key (b # bs) = (if key = normalizeBinding b then True else MatchesAny key bs)"

section \<open>Messages and commands (Bubble Tea)\<close>

text \<open>
  A key message carries its type and the text \<open>msg.String()\<close> that the library derives
  from it.  The only command the modal returns is \<open>tea.Tick\<close> with a 50 ms delay, which
  later delivers \<open>TickMsg{ID: id}\<close>; \<open>nil\<close> is \<open>None\<close>.
\<close>

datatype KeyType = KeyUp | KeyDown | KeyRunes | KeyOther

record KeyMsg =
  key_type :: KeyType
  key_string :: string

datatype Msg = WindowSizeMsg goint goint | TickMsg goint | KeyMsg KeyMsg | OtherMsg

datatype Cmd = Tick goint

text \<open>The \<open>Render\<close> functions of the three styles the modal uses (package \<open>lipgloss\<close>).\<close>

record Styles =
  Help :: "string \<Rightarrow> string"
  Error :: "string \<Rightarrow> string"
  Selected :: "string \<Rightarrow> string"

section \<open>The terminal modal (package \<open>terminal\<close>)\<close>

text \<open>The struct \<open>Model\<close>.  Its field \<open>output *sharedOutput\<close> is \<open>output_ptr\<close> here: the
  address of the sink in the heap, or \<open>None\<close> for \<open>nil\<close>.\<close>

record Model =
  ID :: goint
  Title :: string
  Command :: string
  Dir :: string
  Lines :: "string list"
  ScrollPos :: goint
  MaxLines :: goint
  Running :: bool
  Err :: "error option"
  AutoScroll :: bool
  Width :: goint
  Height :: goint
  Config :: "Config option"
  output_ptr :: "addr option"

text \<open>\<open>New\<close> increments the package-level counter and uses its new value as the ID.\<close>

definition New :: "heap \<Rightarrow> Config option \<Rightarrow> string \<Rightarrow> Model \<times> heap" where
  "New h cfg title =
     (let h' = h\<lparr>instanceCounter := instanceCounter h + 1\<rparr>
      in (\<lparr>ID = instanceCounter h', Title = title, Command = [], Dir = [], Lines = [],
           ScrollPos = 0, MaxLines = 1000, Running = False, Err = None, AutoScroll = True,
           Width = 80, Height = 20, Config = cfg, output_ptr = None\<rparr>, h'))"

definition SetSize :: "goint \<Rightarrow> goint \<Rightarrow> Model \<Rightarrow> Model" where
  "SetSize width height m =
     (let m1 = m\<lparr>Width := go_div (width * 80) 100\<rparr>;
          m2 = (if Width m1 <s 60 then m1\<lparr>Width := 60\<rparr> else m1);
          m3 = (if 120 <s Width m2 then m2\<lparr>Width := 120\<rparr> else m2);
          m4 = m3\<lparr>Height := go_div (height * 70) 100\<rparr>;
          m5 = (if Height m4 <s 10 then m4\<lparr>Height := 10\<rparr> else m4);
          m6 = (if 40 <s Height m5 then m5\<lparr>Height := 40\<rparr> else m5)
      in m6)"

definition visibleLines :: "Model \<Rightarrow> goint" where
  "visibleLines m = Height m - 6"

definition maxScroll :: "Model \<Rightarrow> goint" where
  "maxScroll m =
     (let mx = go_len (Lines m) - visibleLines m
      in if mx <s 0 then 0 else mx)"

definition tick :: "Model \<Rightarrow> Cmd" where
  "tick m = Tick (ID m)"

subsection \<open>Starting a command\<close>

text \<open>
  The goroutine that \<open>RunCommandWithEnv\<close> starts: the values its closure captured.
\<close>

record Goroutine =
  g_dir :: string
  g_env :: "string list option"
  g_output :: addr
  g_name :: string
  g_args :: "string list"

text \<open>
  \<open>RunCommandWithEnv\<close> has a pointer receiver: the model after the call is returned
  together with the command, the goroutine it started and the heap, in which the new
  sink \<open>&sharedOutput{lines: []string{}}\<close> has been allocated.
\<close>

definition RunCommandWithEnv ::
  "Styles \<Rightarrow> heap \<Rightarrow> string list option \<Rightarrow> string \<Rightarrow> string list \<Rightarrow> Model
     \<Rightarrow> Model \<times> Cmd option \<times> Goroutine \<times> heap" where
  "RunCommandWithEnv st h env name args m =
     (let m1 = m\<lparr>Command := name @ '' '' @ Join args '' ''\<rparr>;
          m2 = m1\<lparr>Running := True\<rparr>;
          m3 = m2\<lparr>Lines := [Help st (''$ '' @ Command m2), []]\<rparr>;
          m4 = m3\<lparr>ScrollPos := 0\<rparr>;
          m5 = m4\<lparr>Err := None\<rparr>;
          (empty, h1) = make_slice h 0;
          p = fresh h1;
          h2 = h1\<lparr>sinks := (sinks h1)(p := \<lparr>lines = empty, done_flag = False, err = None\<rparr>),
                  fresh := Suc p\<rparr>;
          m6 = m5\<lparr>output_ptr := Some p\<rparr>;
          g = \<lparr>g_dir = Dir m6, g_env = env, g_output = p, g_name = name, g_args = args\<rparr>
      in (m6, Some (tick m6), g, h2))"

definition RunCommand ::
  "Styles \<Rightarrow> heap \<Rightarrow> string \<Rightarrow> string list \<Rightarrow> Model \<Rightarrow> Model \<times> Cmd option \<times> Goroutine \<times> heap" where
  "RunCommand st h name args m = RunCommandWithEnv st h None name args m"

subsection \<open>The subprocess\<close>

text \<open>
  \<open>exec.Cmd\<close> as the code sets it up, and what the operating system does with it: whether
  creating the pipes and starting the process fail, the lines the two scanners read from
  standard output and standard error, the order in which the two reader goroutines take
  the sink's lock (\<open>True\<close>: the standard-output reader moves next), and the result of
  \<open>cmd.Wait()\<close>.  The operating system is a parameter \<open>os\<close> of the model.
\<close>

record ExecCmd =
  cmd_Path :: string
  cmd_Args :: "string list"
  cmd_Dir :: string
  cmd_Env :: "string list option"

record Process =
  stdoutPipeErr :: "error option"
  stderrPipeErr :: "error option"
  startErr :: "error option"
  stdout_lines :: "string list"
  stderr_lines :: "string list"
  schedule :: "bool list"
  waitErr :: "error option"

fun interleave :: "bool list \<Rightarrow> 'a list \<Rightarrow> 'a list \<Rightarrow> 'a list" where
  "interleave bs [] ys = ys"
| "interleave bs xs [] = xs"
| "interleave [] xs ys = xs @ ys"
| "interleave (True # bs) (x # xs) ys = x # interleave bs xs ys"
| "interleave (False # bs) xs (y # ys) = y # interleave bs xs ys"

text \<open>
  The first lines of \<open>executeCommandStreaming\<close>: \<open>exec.Command(name, args...)\<close>, with
  \<open>Dir\<close> set when \<open>dir\<close> is not empty and \<open>Env\<close> set when \<open>env\<close> is not \<open>nil\<close>.
\<close>

definition configured_cmd ::
  "string \<Rightarrow> string list option \<Rightarrow> string \<Rightarrow> string list \<Rightarrow> ExecCmd" where
  "configured_cmd dir env name args =
     (let cmd = \<lparr>cmd_Path = name, cmd_Args = args, cmd_Dir = [], cmd_Env = None\<rparr>;
          cmd1 = (if dir \<noteq> [] then cmd\<lparr>cmd_Dir := dir\<rparr> else cmd);
          cmd2 = (if env \<noteq> None then cmd1\<lparr>cmd_Env := env\<rparr> else cmd1)
      in cmd2)"

text \<open>
  \<open>executeCommandStreaming\<close> returns the error of the first failing step among
  \<open>StdoutPipe\<close>, \<open>StderrPipe\<close> and \<open>Start\<close>; when the process starts, every line read by
  \<open>readPipeToOutput\<close> is passed to \<open>output.addLine\<close>, and the result is that of
  \<open>cmd.Wait()\<close>.  The model returns the calls of \<open>addLine\<close> in the order in which they
  take effect, and the returned error.
\<close>

definition executeCommandStreaming ::
  "(ExecCmd \<Rightarrow> Process) \<Rightarrow> string \<Rightarrow> string list option \<Rightarrow> string \<Rightarrow> string list
     \<Rightarrow> sink_op list \<times> error option" where
  "executeCommandStreaming os dir env name args =
     (let pr = os (configured_cmd dir env name args)
      in case stdoutPipeErr pr of Some e \<Rightarrow> ([], Some e)
         | None \<Rightarrow>
        (case stderrPipeErr pr of Some e \<Rightarrow> ([], Some e)
         | None \<Rightarrow>
        (case startErr pr of Some e \<Rightarrow> ([], Some e)
         | None \<Rightarrow>
           (map AddLine (interleave (schedule pr) (stdout_lines pr) (stderr_lines pr)),
            waitErr pr))))"

text \<open>
  The error with which a process fails to launch, if it does: the one of the first of
  the three steps that fails.
\<close>

definition spawn_error :: "Process \<Rightarrow> error option" where
  "spawn_error pr =
     (case stdoutPipeErr pr of Some e \<Rightarrow> Some e
      | None \<Rightarrow> (case stderrPipeErr pr of Some e \<Rightarrow> Some e | None \<Rightarrow> startErr pr))"

text \<open>
  The body of the goroutine: \<open>err := executeCommandStreaming(...); output.setDone(err)\<close>,
  as the sequence of operations it performs on its sink.
\<close>

definition goroutine_ops :: "(ExecCmd \<Rightarrow> Process) \<Rightarrow> Goroutine \<Rightarrow> sink_op list" where
  "goroutine_ops os g =
     (let (adds, e) = executeCommandStreaming os (g_dir g) (g_env g) (g_name g) (g_args g)
      in adds @ [SetDone e])"

subsection \<open>Ticks\<close>

text \<open>The UTF-8 bytes of the check mark in the success line.\<close>

definition check_mark :: string where
  "check_mark = [char_of (226::nat), char_of (156::nat), char_of (147::nat)]"

text \<open>The step \<open>if len(m.Lines) > m.MaxLines { m.Lines = m.Lines[len(m.Lines)-m.MaxLines:] }\<close>.\<close>

definition trim_lines :: "Model \<Rightarrow> panic + Model" where
  "trim_lines m =
     (if MaxLines m <s go_len (Lines m)
      then (case slice_from (Lines m) (go_len (Lines m) - MaxLines m) of
              Inl e \<Rightarrow> Inl e
            | Inr ls \<Rightarrow> Inr (m\<lparr>Lines := ls\<rparr>))
      else Inr m)"

text \<open>
  \<open>handleTick\<close> takes the sink's lock twice, in \<open>getLines\<close> and in \<open>isDone\<close>.  The
  operations \<open>between\<close> are those of the goroutines that take the lock between the two.
\<close>

definition handleTick ::
  "Styles \<Rightarrow> (nat \<Rightarrow> nat) \<Rightarrow> sink_op list \<Rightarrow> heap \<Rightarrow> Model
     \<Rightarrow> panic + (Model \<times> Cmd option \<times> heap)" where
  "handleTick st grow between h m =
     (case output_ptr m of
        None \<Rightarrow> Inr (m, None, h)
      | Some p \<Rightarrow>
         (let (r, h1) = getLines h p;
              newLines = sl_elems h1 r;
              m1 = (if 0 < length newLines
                    then m\<lparr>Lines := [Help st (''$ '' @ Command m), []] @ newLines\<rparr>
                    else m)
          in case trim_lines m1 of
               Inl e \<Rightarrow> Inl e
             | Inr m2 \<Rightarrow>
                (let m3 = (if AutoScroll m2 then m2\<lparr>ScrollPos := maxScroll m2\<rparr> else m2);
                     h2 = sink_run grow p h1 between;
                     (d, e) = isDone h2 p
                 in if d
                    then (let m4 = m3\<lparr>Running := False, Err := e\<rparr>;
                              m5 = (case e of
                                      Some msg \<Rightarrow>
                                        m4\<lparr>Lines := Lines m4 @ [[]] @ [Error st (''Error: '' @ msg)]\<rparr>
                                    | None \<Rightarrow>
                                        m4\<lparr>Lines := Lines m4 @ [[]] @
                                               [Selected st (check_mark @ '' Command completed'')]\<rparr>);
                              m6 = (if AutoScroll m5 then m5\<lparr>ScrollPos := maxScroll m5\<rparr> else m5)
                          in Inr (m6, None, h2))
                    else Inr (m3, Some (tick m3), h2))))"

subsection \<open>Keys\<close>

text \<open>The bodies of the six branches of \<open>handleKey\<close>, under the names of the operations.\<close>

definition scrollUp :: "Model \<Rightarrow> Model" where
  "scrollUp m =
     (let m1 = m\<lparr>AutoScroll := False\<rparr>
      in if 0 <s ScrollPos m1 then m1\<lparr>ScrollPos := ScrollPos m1 - 1\<rparr> else m1)"

definition scrollDown :: "Model \<Rightarrow> Model" where
  "scrollDown m =
     (let m1 = (if ScrollPos m <s maxScroll m then m\<lparr>ScrollPos := ScrollPos m + 1\<rparr> else m)
      in if maxScroll m1 \<le>s ScrollPos m1 then m1\<lparr>AutoScroll := True\<rparr> else m1)"

definition pageUp :: "Model \<Rightarrow> Model" where
  "pageUp m =
     (let m1 = m\<lparr>AutoScroll := False\<rparr>;
          m2 = m1\<lparr>ScrollPos := ScrollPos m1 - visibleLines m1\<rparr>
      in if ScrollPos m2 <s 0 then m2\<lparr>ScrollPos := 0\<rparr> else m2)"

definition pageDown :: "Model \<Rightarrow> Model" where
  "pageDown m =
     (let m1 = m\<lparr>ScrollPos := ScrollPos m + visibleLines m\<rparr>;
          m2 = (if maxScroll m1 <s ScrollPos m1 then m1\<lparr>ScrollPos := maxScroll m1\<rparr> else m1)
      in if maxScroll m2 \<le>s ScrollPos m2 then m2\<lparr>AutoScroll := True\<rparr> else m2)"

definition jumpTop :: "Model \<Rightarrow> Model" where
  "jumpTop m = (let m1 = m\<lparr>AutoScroll := False\<rparr> in m1\<lparr>ScrollPos := 0\<rparr>)"

definition jumpBottom :: "Model \<Rightarrow> Model" where
  "jumpBottom m = (let m1 = m\<lparr>ScrollPos := maxScroll m\<rparr> in m1\<lparr>AutoScroll := True\<rparr>)"

definition handleKey :: "KeyMsg \<Rightarrow> Model \<Rightarrow> panic + (Model \<times> Cmd option)" where
  "handleKey msg m =
     (let key = key_string msg
      in case deref_keys (Config m) of
           Inl e \<Rightarrow> Inl e
         | Inr kb \<Rightarrow>
             if MatchesAny key [MoveUp (Global kb), MoveUpAlt (Global kb)] \<or> key_type msg = KeyUp
             then Inr (scrollUp m, None)
             else if MatchesAny key [MoveDown (Global kb), MoveDownAlt (Global kb)]
                     \<or> key_type msg = KeyDown
             then Inr (scrollDown m, None)
             else if Matches key (PageUp (List kb)) then Inr (pageUp m, None)
             else if Matches key (PageDown (List kb)) then Inr (pageDown m, None)
             else if Matches key (Top (List kb)) then Inr (jumpTop m, None)
             else if Matches key (Bottom (List kb)) then Inr (jumpBottom m, None)
             else Inr (m, None))"

definition Update ::
  "Styles \<Rightarrow> (nat \<Rightarrow> nat) \<Rightarrow> sink_op list \<Rightarrow> heap \<Rightarrow> Msg \<Rightarrow> Model
     \<Rightarrow> panic + (Model \<times> Cmd option \<times> heap)" where
  "Update st grow between h msg m =
     (case msg of
        WindowSizeMsg w hh \<Rightarrow> Inr (SetSize w hh m, None, h)
      | TickMsg i \<Rightarrow> if i \<noteq> ID m then Inr (m, None, h) else handleTick st grow between h m
      | KeyMsg k \<Rightarrow> (case handleKey k m of Inl e \<Rightarrow> Inl e | Inr (m', c) \<Rightarrow> Inr (m', c, h))
      | OtherMsg \<Rightarrow> Inr (m, None, h))"

definition ShouldClose :: "KeyMsg \<Rightarrow> Model \<Rightarrow> panic + bool" where
  "ShouldClose msg m =
     (let key = key_string msg
      in case deref_keys (Config m) of
           Inl e \<Rightarrow> Inl e
         | Inr kb \<Rightarrow> Inr (MatchesAny key [Quit (Global kb), QuitAlt (Global kb)]))"

subsection \<open>Reading the output\<close>

definition GetOutput :: "Model \<Rightarrow> string" where
  "GetOutput m = (if length (Lines m) \<le> 2 then [] else Join (drop 2 (Lines m)) [CHR 0x0A])"

definition GetRawOutput :: "heap \<Rightarrow> Model \<Rightarrow> string \<times> heap" where
  "GetRawOutput h m =
     (case output_ptr m of
        None \<Rightarrow> ([], h)
      | Some p \<Rightarrow> (let (ls, h') = getLines h p in (Join (sl_elems h' ls) [CHR 0x0A], h')))"

section \<open>The caller of the modal (package \<open>todo\<close>)\<close>

datatype View = ListView | DetailView | CreateView | EditView | DeleteConfirmView
  | PromptEditorView | TerminalView

text \<open>
  The fields of the TODO model that the modal's close protocol reads or writes.  The field
  \<open>TerminalCallback func(m *Model, output string)\<close> holds a closure or \<open>nil\<close>; closures are
  values of a type \<open>'cb\<close>, and \<open>run_cb\<close> below says what calling one does to the model it
  is given a pointer to.
\<close>

record 'cb TodoModel =
  CurrentView :: View
  PreviousView :: View
  FormPrompts :: "string list"
  Improving :: bool
  Terminal :: Model
  TerminalCallback :: "'cb option"

text \<open>
  \<open>UpdateTerminalView\<close>.  Besides the model, the command and the heap, the result lists
  the calls of the callback that the step made, each with its argument.
\<close>

definition UpdateTerminalView ::
  "('cb \<Rightarrow> 'cb TodoModel \<Rightarrow> string \<Rightarrow> 'cb TodoModel) \<Rightarrow> Styles \<Rightarrow> (nat \<Rightarrow> nat) \<Rightarrow> heap
     \<Rightarrow> KeyMsg \<Rightarrow> 'cb TodoModel
     \<Rightarrow> panic + ('cb TodoModel \<times> Cmd option \<times> heap \<times> ('cb \<times> string) list)" where
  "UpdateTerminalView run_cb st grow h msg m =
     (case ShouldClose msg (Terminal m) of
        Inl e \<Rightarrow> Inl e
      | Inr True \<Rightarrow>
          (let (out, h') = GetRawOutput h (Terminal m);
               (m1, calls) = (case TerminalCallback m of
                                Some cb \<Rightarrow> (run_cb cb m out, [(cb, out)])
                              | None \<Rightarrow> (m, []));
               m2 = m1\<lparr>CurrentView := PreviousView m1\<rparr>;
               m3 = m2\<lparr>TerminalCallback := None\<rparr>
           in Inr (m3, None, h', calls))
      | Inr False \<Rightarrow>
          (case Update st grow [] h (KeyMsg msg) (Terminal m) of
             Inl e \<Rightarrow> Inl e
           | Inr (t, cmd, h') \<Rightarrow> Inr (m\<lparr>Terminal := t\<rparr>, cmd, h', [])))"

text \<open>
  The closure that \<open>openImprovePromptTerminal\<close> installs; it captures \<open>idx\<close>.
  \<open>strings.TrimSpace\<close> is the parameter \<open>trim\<close>.
\<close>

definition improve_callback ::
  "(string \<Rightarrow> string) \<Rightarrow> goint \<Rightarrow> goint TodoModel \<Rightarrow> string \<Rightarrow> goint TodoModel" where
  "improve_callback trim idx model out =
     (let model1 = model\<lparr>Improving := False\<rparr>;
          improved = trim out
      in if improved \<noteq> [] \<and> 0 \<le>s idx \<and> idx <s go_len (FormPrompts model1)
         then model1\<lparr>FormPrompts := (FormPrompts model1)[unat idx := improved]\<rparr>
         else model1)"

text \<open>
  A modal session as the caller sees it.  While the modal is the current view,
  \<open>Update\<close> of package \<open>todo\<close> passes key messages to \<open>UpdateTerminalView\<close>, forwards
  tick messages to the modal's \<open>Update\<close> and resizes the modal on window-size
  messages.  Each message is handled in the heap as the goroutines have left it by
  then.  \<open>session_calls\<close> collects the callback calls made along the way; a panic ends the
  program.
\<close>

datatype session_msg = SessionKey KeyMsg | SessionTick goint "sink_op list"
  | SessionResize goint goint

definition session_step ::
  "('cb \<Rightarrow> 'cb TodoModel \<Rightarrow> string \<Rightarrow> 'cb TodoModel) \<Rightarrow> Styles \<Rightarrow> (nat \<Rightarrow> nat) \<Rightarrow> heap
     \<Rightarrow> session_msg \<Rightarrow> 'cb TodoModel
     \<Rightarrow> panic + ('cb TodoModel \<times> Cmd option \<times> heap \<times> ('cb \<times> string) list)" where
  "session_step run_cb st grow h msg m =
     (case msg of
        SessionKey k \<Rightarrow> UpdateTerminalView run_cb st grow h k m
      | SessionTick i between \<Rightarrow>
          (case Update st grow between h (TickMsg i) (Terminal m) of
             Inl e \<Rightarrow> Inl e
           | Inr (t, cmd, h') \<Rightarrow> Inr (m\<lparr>Terminal := t\<rparr>, cmd, h', []))
      | SessionResize w hh \<Rightarrow> Inr (m\<lparr>Terminal := SetSize w hh (Terminal m)\<rparr>, None, h, []))"

fun session_calls ::
  "('cb \<Rightarrow> 'cb TodoModel \<Rightarrow> string \<Rightarrow> 'cb TodoModel) \<Rightarrow> Styles \<Rightarrow> (nat \<Rightarrow> nat)
     \<Rightarrow> 'cb TodoModel \<Rightarrow> (heap \<times> session_msg) list \<Rightarrow> ('cb \<times> string) list" where
  "session_calls run_cb st grow m [] = []"
| "session_calls run_cb st grow m ((h, msg) # rest) =
     (case session_step run_cb st grow h msg m of
        Inl e \<Rightarrow> []
      | Inr (m', cmd, h', calls) \<Rightarrow> calls @ session_calls run_cb st grow m' rest)"

section \<open>Observations\<close>

text \<open>The lines that a sequence of sink operations appends.\<close>

fun added_lines :: "sink_op list \<Rightarrow> string list" where
  "added_lines [] = []"
| "added_lines (AddLine line # ops) = line # added_lines ops"
| "added_lines (SetDone e # ops) = added_lines ops"
| "added_lines (GetLines # ops) = added_lines ops"

text \<open>The display buffer and the command that a tick leaves.\<close>

definition tick_lines ::
  "Styles \<Rightarrow> (nat \<Rightarrow> nat) \<Rightarrow> sink_op list \<Rightarrow> heap \<Rightarrow> Model \<Rightarrow> panic + (string list \<times> Cmd option)" where
  "tick_lines st grow between h m =
     (case handleTick st grow between h m of
        Inl e \<Rightarrow> Inl e
      | Inr (m', c, h') \<Rightarrow> Inr (Lines m', c))"

text \<open>The status line that a tick appends once the sink is done.\<close>

definition status_line :: "Styles \<Rightarrow> error option \<Rightarrow> string" where
  "status_line st e =
     (case e of
        Some msg \<Rightarrow> Error st (''Error: '' @ msg)
      | None \<Rightarrow> Selected st (check_mark @ '' Command completed''))"

text \<open>What \<open>GetOutput\<close> returns for the model that a tick leaves.\<close>

definition tick_output ::
  "Styles \<Rightarrow> (nat \<Rightarrow> nat) \<Rightarrow> sink_op list \<Rightarrow> heap \<Rightarrow> Model \<Rightarrow> panic + string" where
  "tick_output st grow between h m =
     (case handleTick st grow between h m of
        Inl e \<Rightarrow> Inl e
      | Inr (m', c, h') \<Rightarrow> Inr (GetOutput m'))"

section \<open>Successive instantiations\<close>

text \<open>
  The IDs that successive calls of \<open>New\<close> assign, each call running in the heap the
  previous one left.
\<close>

fun new_ids :: "heap \<Rightarrow> (Config option \<times> string) list \<Rightarrow> goint list" where
  "new_ids h [] = []"
| "new_ids h ((cfg, title) # rest) =
     (let (m, h') = New h cfg title in ID m # new_ids h' rest)"

section \<open>Sequences of viewport operations\<close>

text \<open>
  The offset is within bounds when it lies between 0 and \<open>maxScroll()\<close>, which is
  \<open>max(0, len(Lines) - visibleLines())\<close>.
\<close>

definition offset_in_bounds :: "Model \<Rightarrow> bool" where
  "offset_in_bounds m \<longleftrightarrow> 0 \<le>s ScrollPos m \<and> ScrollPos m \<le>s maxScroll m"

text \<open>
  The operations on the viewport reach the modal as key messages (\<open>handleKey\<close>) and as
  window-size messages (\<open>SetSize\<close>).  \<open>view_run\<close> applies a sequence of them and stops at
  a panic.
\<close>

datatype view_op = Key KeyMsg | Resize goint goint

definition view_step :: "view_op \<Rightarrow> Model \<Rightarrow> panic + Model" where
  "view_step op m =
     (case op of
        Key k \<Rightarrow> (case handleKey k m of Inl e \<Rightarrow> Inl e | Inr (m', c) \<Rightarrow> Inr m')
      | Resize w hh \<Rightarrow> Inr (SetSize w hh m))"

fun view_run :: "view_op list \<Rightarrow> Model \<Rightarrow> panic + Model" where
  "view_run [] m = Inr m"
| "view_run (op # ops) m =
     (case view_step op m of Inl e \<Rightarrow> Inl e | Inr m' \<Rightarrow> view_run ops m')"

section \<open>Concrete values used in the examples\<close>

definition heap0 :: heap where
  "heap0 = \<lparr>arrays = (\<lambda>a. []), sinks = (\<lambda>a. \<lparr>lines = \<lparr>sl_ptr = 0, sl_len = 0, sl_cap = 0\<rparr>,
                done_flag = False, err = None\<rparr>), fresh = 1, instanceCounter = 0\<rparr>"

definition plain :: Styles where
  "plain = \<lparr>Help = (\<lambda>s. s), Error = (\<lambda>s. s), Selected = (\<lambda>s. s)\<rparr>"

definition default_config :: "Config option" where
  "default_config = Some \<lparr>Keybindings = Some DefaultKeybindings\<rparr>"

definition double :: "nat \<Rightarrow> nat" where
  "double c = 2 * c"

text \<open>A sink at address 0 that has received two lines.\<close>

definition heap1 :: heap where
  "heap1 = sink_run double 0 heap0 [AddLine ''a'', AddLine ''b'']"

text \<open>
  A modal as \<open>New\<close> returns it in the initial heap, and the same modal sized for a small
  screen (height 10, four visible lines) with twenty lines in its buffer.
\<close>

definition demo_model :: Model where
  "demo_model = fst (New heap0 default_config ''demo'')"

definition m20 :: Model where
  "m20 = (SetSize 0 0 demo_model)\<lparr>Lines := replicate 20 ''x''\<rparr>"

definition key :: "string \<Rightarrow> KeyMsg" where
  "key s = \<lparr>key_type = KeyRunes, key_string = s\<rparr>"

text \<open>
  The modal after \<open>RunCommand\<close>, with the goroutine it started and the heap holding its
  sink.  Three behaviours of the operating system: a process that prints \<open>line1\<close> and
  \<open>line2\<close> on standard output and exits with status 0, a program that does not exist,
  and a process that prints five lines.
\<close>

definition started :: "Model \<times> Cmd option \<times> Goroutine \<times> heap" where
  "started = RunCommand plain (snd (New heap0 default_config ''demo'')) ''prog'' [] demo_model"

definition run_model :: Model where
  "run_model = fst started"

definition run_goroutine :: Goroutine where
  "run_goroutine = fst (snd (snd started))"

definition run_heap :: heap where
  "run_heap = snd (snd (snd started))"

definition quiet :: Process where
  "quiet = \<lparr>stdoutPipeErr = None, stderrPipeErr = None, startErr = None, stdout_lines = [],
            stderr_lines = [], schedule = [], waitErr = None\<rparr>"

definition os_two_lines :: "ExecCmd \<Rightarrow> Process" where
  "os_two_lines c = quiet\<lparr>stdout_lines := [''line1'', ''line2'']\<rparr>"

definition os_not_found :: "ExecCmd \<Rightarrow> Process" where
  "os_not_found c = quiet\<lparr>startErr := Some ''executable file not found''\<rparr>"

definition os_five_lines :: "ExecCmd \<Rightarrow> Process" where
  "os_five_lines c = quiet\<lparr>stdout_lines := [''1'', ''2'', ''3'', ''4'', ''5'']\<rparr>"

text \<open>The heap once the goroutine has finished, for each of the three.\<close>

definition heap_two_lines :: heap where
  "heap_two_lines = sink_run double 2 run_heap (goroutine_ops os_two_lines run_goroutine)"

definition heap_not_found :: heap where
  "heap_not_found = sink_run double 2 run_heap (goroutine_ops os_not_found run_goroutine)"

definition heap_five_lines :: heap where
  "heap_five_lines = sink_run double 2 run_heap (goroutine_ops os_five_lines run_goroutine)"

text \<open>
  The sink while the five-line process is still running, and the sink of a finished
  process that printed a thousand lines.
\<close>

definition heap_five_running :: heap where
  "heap_five_running
     = sink_run double 2 run_heap (map AddLine [''1'', ''2'', ''3'', ''4'', ''5''])"

definition os_thousand_lines :: "ExecCmd \<Rightarrow> Process" where
  "os_thousand_lines c = quiet\<lparr>stdout_lines := replicate 1000 ''out''\<rparr>"

definition heap_thousand_lines :: heap where
  "heap_thousand_lines
     = sink_run double 2 run_heap (goroutine_ops os_thousand_lines run_goroutine)"

text \<open>
  A TODO model showing that modal, opened from the edit form by
  \<open>openImprovePromptTerminal\<close> for the prompt with index 0.  Its callback is the closure
  of that function, so a closure is represented by the index it captured.
\<close>

definition demo_todo :: "goint TodoModel" where
  "demo_todo = \<lparr>CurrentView = TerminalView, PreviousView = EditView, FormPrompts = [''draft''],
                 Improving = True, Terminal = run_model, TerminalCallback = Some 0\<rparr>"

section \<open>Properties of the output sink\<close>

lemma setDone_twice: "setDone (setDone h p e1) p e2 = setDone h p e2"
  by (simp add: setDone_def)

lemma isDone_setDone: "isDone (setDone h p e) p = (True, e)"
  by (simp add: setDone_def isDone_def)

lemma getLines_facts:
  assumes ok: "sl_ok h (lines (sinks h p))"
  shows "sinks (snd (getLines h p)) = sinks h"
    and "fresh (snd (getLines h p)) = Suc (fresh h)"
    and "sl_ptr (fst (getLines h p)) = fresh h"
    and "sl_len (fst (getLines h p)) = sl_len (lines (sinks h p))"
    and "sl_elems (snd (getLines h p)) (fst (getLines h p)) = sl_elems h (lines (sinks h p))"
    and "arrays (snd (getLines h p)) (sl_ptr (lines (sinks h p)))
           = arrays h (sl_ptr (lines (sinks h p)))"
    and "instanceCounter (snd (getLines h p)) = instanceCounter h"
  using ok
  by (auto simp: getLines_def make_slice_def copy_slice_def sl_elems_def sl_ok_def Let_def)

lemma snapshot_eq:
  "sl_ok h (lines (sinks h p)) \<Longrightarrow> snapshot h p = sl_elems h (lines (sinks h p))"
  using getLines_facts(5)[of h p] by (simp add: snapshot_def split_beta)

lemma getLines_ok:
  "sl_ok h (lines (sinks h p))
   \<Longrightarrow> sl_ok (snd (getLines h p)) (lines (sinks (snd (getLines h p)) p))"
  by (auto simp: getLines_def make_slice_def copy_slice_def sl_elems_def sl_ok_def Let_def)

lemma getLines_sink_elems:
  assumes ok: "sl_ok h (lines (sinks h p))"
  shows "sl_elems (snd (getLines h p)) (lines (sinks (snd (getLines h p)) p))
           = sl_elems h (lines (sinks h p))"
  using getLines_facts(1,6)[OF ok] by (simp add: sl_elems_def)

lemma addLine_ok:
  "sl_ok h (lines (sinks h p))
   \<Longrightarrow> sl_ok (addLine grow h p x) (lines (sinks (addLine grow h p x) p))"
  by (auto simp: addLine_def append_slice_def sl_elems_def sl_ok_def Let_def)

lemma addLine_elems:
  "sl_ok h (lines (sinks h p)) \<Longrightarrow>
   sl_elems (addLine grow h p x) (lines (sinks (addLine grow h p x) p))
     = sl_elems h (lines (sinks h p)) @ [x]"
  by (auto simp: addLine_def append_slice_def sl_elems_def sl_ok_def Let_def
      take_Suc_conv_app_nth)

lemma setDone_ok:
  "sl_ok h (lines (sinks h p))
   \<Longrightarrow> sl_ok (setDone h p e) (lines (sinks (setDone h p e) p))"
  by (auto simp: setDone_def sl_ok_def)

lemma setDone_elems:
  "sl_elems (setDone h p e) (lines (sinks (setDone h p e) p)) = sl_elems h (lines (sinks h p))"
  by (auto simp: setDone_def sl_elems_def)

lemma sink_step_ok:
  "sl_ok h (lines (sinks h p))
   \<Longrightarrow> sl_ok (sink_step grow p h op) (lines (sinks (sink_step grow p h op) p))"
  by (cases op) (simp_all add: addLine_ok setDone_ok getLines_ok)

lemma sink_step_prefix:
  assumes ok: "sl_ok h (lines (sinks h p))"
  shows "prefix (sl_elems h (lines (sinks h p)))
          (sl_elems (sink_step grow p h op) (lines (sinks (sink_step grow p h op) p)))"
proof (cases op)
  case (AddLine x)
  then show ?thesis using ok by (simp add: addLine_elems)
next
  case (SetDone e)
  then show ?thesis by (simp add: setDone_elems)
next
  case GetLines
  then show ?thesis using getLines_sink_elems[OF ok] by simp
qed

lemma sink_run_ok:
  "sl_ok h (lines (sinks h p))
   \<Longrightarrow> sl_ok (sink_run grow p h ops) (lines (sinks (sink_run grow p h ops) p))"
  unfolding sink_run_def
  by (induction ops arbitrary: h) (simp_all add: sink_step_ok)

lemma sink_run_prefix:
  "sl_ok h (lines (sinks h p)) \<Longrightarrow>
   prefix (sl_elems h (lines (sinks h p)))
          (sl_elems (sink_run grow p h ops) (lines (sinks (sink_run grow p h ops) p)))"
  unfolding sink_run_def
proof (induction ops arbitrary: h)
  case Nil
  then show ?case by simp
next
  case (Cons op ops)
  let ?h1 = "sink_step grow p h op"
  have "prefix (sl_elems h (lines (sinks h p))) (sl_elems ?h1 (lines (sinks ?h1 p)))"
    using Cons.prems by (rule sink_step_prefix)
  moreover have "prefix (sl_elems ?h1 (lines (sinks ?h1 p)))
     (sl_elems (foldl (sink_step grow p) ?h1 ops)
        (lines (sinks (foldl (sink_step grow p) ?h1 ops) p)))"
    using Cons.IH[OF sink_step_ok[OF Cons.prems]] .
  ultimately show ?case by (simp add: prefix_order.trans)
qed

lemma sink_run_append:
  "sink_run grow p h (xs @ ys) = sink_run grow p (sink_run grow p h xs) ys"
  by (simp add: sink_run_def)

lemma slice_set_copy_independent:
  assumes ok: "sl_ok h (lines (sinks h p))"
    and w: "slice_set (snd (getLines h p)) (fst (getLines h p)) i v = Inr h2"
  shows "sinks h2 = sinks h"
    and "sl_elems h2 (lines (sinks h2 p)) = sl_elems h (lines (sinks h p))"
    and "sl_ok h2 (lines (sinks h2 p))"
    and "sl_elems h2 (fst (getLines h p)) = (sl_elems h (lines (sinks h p)))[i := v]"
  using ok w
  by (auto simp: slice_set_def getLines_def make_slice_def copy_slice_def sl_elems_def
      sl_ok_def Let_def split: if_splits)

lemma append_copy_independent:
  assumes ok: "sl_ok h (lines (sinks h p))"
    and w: "append_slice grow (snd (getLines h p)) (fst (getLines h p)) x = (r2, h2)"
  shows "sinks h2 = sinks h"
    and "sl_elems h2 (lines (sinks h2 p)) = sl_elems h (lines (sinks h p))"
    and "sl_ok h2 (lines (sinks h2 p))"
  using ok w
  by (auto simp: append_slice_def getLines_def make_slice_def copy_slice_def sl_elems_def
      sl_ok_def Let_def split: if_splits)

lemma heap1_ok: "sl_ok heap1 (lines (sinks heap1 0))"
  by (simp add: heap1_def heap0_def sink_run_def addLine_def append_slice_def sl_ok_def
      sl_elems_def double_def)

text \<open>
  Claim C1, as the code has it.  \<open>setDone\<close> assigns both fields on every call: the
  completion flag stays set, and the terminal error is the one of the latest call.  A
  second call changes nothing only when it passes the same error.  The lines are never
  touched.
\<close>

theorem setDone_last_error_wins:
  "isDone (setDone (setDone h p e1) p e2) p = (True, e2)
   \<and> setDone (setDone h p e1) p e2 = setDone h p e2
   \<and> setDone (setDone h p e) p e = setDone h p e
   \<and> lines (sinks (setDone h p e) p) = lines (sinks h p)"
  by (simp add: setDone_def isDone_def)

text \<open>
  Claim C1 as stated fails: after \<open>setDone\<close> with the error \<open>first\<close>, a call with the
  error \<open>second\<close> replaces the terminal error.
\<close>

theorem setDone_not_idempotent_counterexample:
  "isDone (setDone heap0 0 (Some ''first'')) 0 = (True, Some ''first'')
   \<and> isDone (setDone (setDone heap0 0 (Some ''first'')) 0 (Some ''second'')) 0
       = (True, Some ''second'')"
  by (simp add: setDone_def isDone_def)

text \<open>
  Claim C9.  For a well-formed sink, \<open>getLines\<close> returns a slice with the sink's lines
  in an array of its own: an assignment to an element of the result, or an \<open>append\<close> to
  it, changes the result and leaves the sink and every later snapshot as they were.
  The sink only grows: along every sequence of \<open>addLine\<close>, \<open>setDone\<close> and \<open>getLines\<close>
  calls, an earlier snapshot is a prefix of every later one, so the number of lines
  never decreases.
\<close>

theorem getLines_copy_and_append_only:
  assumes ok: "sl_ok h (lines (sinks h p))"
  shows "sl_elems (snd (getLines h p)) (fst (getLines h p)) = sl_elems h (lines (sinks h p))
    \<and> (i < sl_len (lines (sinks h p)) \<longrightarrow>
         (case slice_set (snd (getLines h p)) (fst (getLines h p)) i v of
            Inl e \<Rightarrow> False
          | Inr h2 \<Rightarrow> sl_elems h2 (fst (getLines h p)) = (snapshot h p)[i := v]
                     \<and> sinks h2 = sinks h \<and> snapshot h2 p = snapshot h p))
    \<and> (case append_slice grow (snd (getLines h p)) (fst (getLines h p)) x of
          (r2, h2) \<Rightarrow> sinks h2 = sinks h \<and> snapshot h2 p = snapshot h p)
    \<and> prefix (snapshot (sink_run grow p h ops1) p) (snapshot (sink_run grow p h (ops1 @ ops2)) p)
    \<and> length (snapshot (sink_run grow p h ops1) p)
        \<le> length (snapshot (sink_run grow p h (ops1 @ ops2)) p)"
proof -
  let ?r = "fst (getLines h p)" and ?h' = "snd (getLines h p)"
  have copy: "sl_elems ?h' ?r = sl_elems h (lines (sinks h p))"
    using getLines_facts(5)[OF ok] .
  have wr: "case slice_set ?h' ?r i v of
            Inl e \<Rightarrow> False
          | Inr h2 \<Rightarrow> sl_elems h2 ?r = (snapshot h p)[i := v]
                     \<and> sinks h2 = sinks h \<and> snapshot h2 p = snapshot h p"
    if i: "i < sl_len (lines (sinks h p))"
  proof (cases "slice_set ?h' ?r i v")
    case (Inl e)
    then show ?thesis using i getLines_facts(4)[OF ok] by (simp add: slice_set_def)
  next
    case (Inr h2)
    show ?thesis
      using slice_set_copy_independent[OF ok Inr] Inr
      by (simp add: snapshot_eq ok)
  qed
  have app: "case append_slice grow ?h' ?r x of
          (r2, h2) \<Rightarrow> sinks h2 = sinks h \<and> snapshot h2 p = snapshot h p"
  proof (cases "append_slice grow ?h' ?r x")
    case (Pair r2 h2)
    show ?thesis
      using append_copy_independent[OF ok Pair] Pair by (simp add: snapshot_eq ok)
  qed
  let ?h1 = "sink_run grow p h ops1"
  have ok1: "sl_ok ?h1 (lines (sinks ?h1 p))" using ok by (rule sink_run_ok)
  have ok2: "sl_ok (sink_run grow p ?h1 ops2) (lines (sinks (sink_run grow p ?h1 ops2) p))"
    using ok1 by (rule sink_run_ok)
  have pre: "prefix (snapshot ?h1 p) (snapshot (sink_run grow p h (ops1 @ ops2)) p)"
    using sink_run_prefix[OF ok1, of grow ops2]
    by (simp add: sink_run_append snapshot_eq ok1 ok2)
  from pre have len: "length (snapshot ?h1 p) \<le> length (snapshot (sink_run grow p h (ops1 @ ops2)) p)"
    by (rule prefix_length_le)
  show ?thesis using copy wr app pre len by blast
qed

theorem getLines_copy_and_append_only_witness:
  "sl_ok heap1 (lines (sinks heap1 0)) \<and> (1::nat) < sl_len (lines (sinks heap1 0))
   \<and> (case slice_set (snd (getLines heap1 0)) (fst (getLines heap1 0)) 1 ''z'' of
            Inl e \<Rightarrow> False
          | Inr h2 \<Rightarrow> sl_elems h2 (fst (getLines heap1 0)) = (snapshot heap1 0)[1 := ''z'']
                     \<and> sinks h2 = sinks heap1 \<and> snapshot h2 0 = snapshot heap1 0)
   \<and> prefix (snapshot (sink_run double 0 heap1 [AddLine ''c'']) 0)
        (snapshot (sink_run double 0 heap1 ([AddLine ''c''] @ [SetDone None, GetLines, AddLine ''d''])) 0)"
proof -
  have l: "(1::nat) < sl_len (lines (sinks heap1 0))"
    by (simp add: heap1_def heap0_def sink_run_def addLine_def append_slice_def sl_ok_def
      sl_elems_def double_def)
  show ?thesis
    using getLines_copy_and_append_only[OF heap1_ok, of 1 "''z''" double "''c''" "[AddLine ''c'']" "[SetDone None, GetLines, AddLine ''d'']"] l heap1_ok
    by blast
qed

section \<open>Arithmetic of the viewport\<close>

text \<open>
  The comparisons and differences of the viewport code do not overflow for the values
  that occur; the lemmas below read them as mathematical integers.
\<close>

lemma sint_sub_small:
  fixes a b :: goint
  assumes "- (2 ^ 63) \<le> sint a - sint b" "sint a - sint b < 2 ^ 63"
  shows "sint (a - b) = sint a - sint b"
  using assms by (simp add: sint_word_ariths signed_take_bit_int_eq_self)

lemma sint_add_small:
  fixes a b :: goint
  assumes "- (2 ^ 63) \<le> sint a + sint b" "sint a + sint b < 2 ^ 63"
  shows "sint (a + b) = sint a + sint b"
  using assms by (simp add: sint_word_ariths signed_take_bit_int_eq_self)

lemma sint_go_len: "length xs < 2 ^ 63 \<Longrightarrow> sint (go_len xs) = int (length xs)"
  unfolding go_len_def
  by (simp add: signed_of_nat signed_take_bit_int_eq_self)

lemma goint_eq_iff: "(a :: goint) = b \<longleftrightarrow> sint a = sint b"
  by (auto intro: signed_word_eqI)

lemma sint_range: "- (2 ^ 63) \<le> sint (a :: goint) \<and> sint a < 2 ^ 63"
  using sint_ge[of a] sint_lt[of a] by simp

lemma sint_visibleLines:
  "- (2 ^ 63) + 6 \<le> sint (Height m) \<Longrightarrow> sint (visibleLines m) = sint (Height m) - 6"
proof -
  assume a: "- (2 ^ 63) + 6 \<le> sint (Height m)"
  have "sint (Height m) < 2 ^ 63" using sint_range[of "Height m"] by simp
  then have "sint (Height m - 6) = sint (Height m) - sint (6 :: goint)"
    using a by (intro sint_sub_small) simp_all
  then show ?thesis unfolding visibleLines_def by simp
qed

lemma sint_maxScroll:
  assumes "length (Lines m) < 2 ^ 63" "6 \<le> sint (Height m)"
  shows "sint (maxScroll m) = max 0 (int (length (Lines m)) - (sint (Height m) - 6))"
proof -
  have v: "sint (visibleLines m) = sint (Height m) - 6"
    using assms by (simp add: sint_visibleLines)
  have l: "sint (go_len (Lines m)) = int (length (Lines m))"
    using assms by (simp add: sint_go_len)
  have hb: "sint (Height m) < 2 ^ 63" using sint_range[of "Height m"] by simp
  have d: "sint (go_len (Lines m) - visibleLines m) = int (length (Lines m)) - (sint (Height m) - 6)"
  proof -
    have "sint (go_len (Lines m) - visibleLines m) = sint (go_len (Lines m)) - sint (visibleLines m)"
      using assms hb by (intro sint_sub_small) (simp_all add: v l)
    then show ?thesis by (simp add: v l)
  qed
  show ?thesis
    unfolding maxScroll_def Let_def using d by (simp add: word_sless_alt)
qed

lemma scrollUp_frame:
  "Lines (scrollUp m) = Lines m" "Height (scrollUp m) = Height m" "Config (scrollUp m) = Config m"
  "AutoScroll (scrollUp m) = False"
  by (simp_all add: scrollUp_def Let_def)

lemma scrollDown_frame:
  "Lines (scrollDown m) = Lines m" "Height (scrollDown m) = Height m" "Config (scrollDown m) = Config m"
  by (simp_all add: scrollDown_def Let_def maxScroll_def visibleLines_def)

lemma pageUp_frame:
  "Lines (pageUp m) = Lines m" "Height (pageUp m) = Height m" "Config (pageUp m) = Config m"
  "AutoScroll (pageUp m) = False"
  by (simp_all add: pageUp_def Let_def visibleLines_def)

lemma pageDown_frame:
  "Lines (pageDown m) = Lines m" "Height (pageDown m) = Height m" "Config (pageDown m) = Config m"
  by (simp_all add: pageDown_def Let_def maxScroll_def visibleLines_def)

lemma jumpTop_frame:
  "Lines (jumpTop m) = Lines m" "Height (jumpTop m) = Height m" "Config (jumpTop m) = Config m"
  "AutoScroll (jumpTop m) = False" "ScrollPos (jumpTop m) = 0"
  by (simp_all add: jumpTop_def Let_def)

lemma jumpBottom_frame:
  "Lines (jumpBottom m) = Lines m" "Height (jumpBottom m) = Height m" "Config (jumpBottom m) = Config m"
  "AutoScroll (jumpBottom m) = True" "ScrollPos (jumpBottom m) = maxScroll m"
  by (simp_all add: jumpBottom_def Let_def)

lemma maxScroll_cong:
  "Lines m' = Lines m \<Longrightarrow> Height m' = Height m \<Longrightarrow> maxScroll m' = maxScroll m"
  by (simp add: maxScroll_def visibleLines_def)

lemma sint_scrollUp:
  "sint (ScrollPos (scrollUp m)) = (if 0 < sint (ScrollPos m) then sint (ScrollPos m) - 1 else sint (ScrollPos m))"
proof (cases "0 < sint (ScrollPos m)")
  case True
  have "sint (ScrollPos m - 1) = sint (ScrollPos m) - sint (1::goint)"
    using True sint_range[of "ScrollPos m"] by (intro sint_sub_small) simp_all
  then show ?thesis using True by (simp add: scrollUp_def Let_def word_sless_alt)
next
  case False
  then show ?thesis by (simp add: scrollUp_def Let_def word_sless_alt)
qed

lemma sint_scrollDown:
  "sint (ScrollPos (scrollDown m)) =
     (if sint (ScrollPos m) < sint (maxScroll m) then sint (ScrollPos m) + 1 else sint (ScrollPos m))"
proof (cases "sint (ScrollPos m) < sint (maxScroll m)")
  case True
  have "sint (ScrollPos m + 1) = sint (ScrollPos m) + sint (1::goint)"
    using True sint_range[of "ScrollPos m"] sint_range[of "maxScroll m"]
    by (intro sint_add_small) simp_all
  then show ?thesis using True by (simp add: scrollDown_def Let_def word_sless_alt)
next
  case False
  then show ?thesis by (simp add: scrollDown_def Let_def word_sless_alt)
qed

lemma sint_pageUp:
  assumes "0 \<le> sint (ScrollPos m)" "6 \<le> sint (Height m)"
  shows "sint (ScrollPos (pageUp m)) = max 0 (sint (ScrollPos m) - (sint (Height m) - 6))"
proof -
  have v: "sint (visibleLines m) = sint (Height m) - 6"
    using assms by (simp add: sint_visibleLines)
  have "sint (ScrollPos m - visibleLines m) = sint (ScrollPos m) - sint (visibleLines m)"
    using assms sint_range[of "ScrollPos m"] sint_range[of "Height m"]
    by (intro sint_sub_small) (simp_all add: v)
  then show ?thesis
    by (simp add: pageUp_def Let_def word_sless_alt visibleLines_def v[unfolded visibleLines_def])
qed

lemma sint_pageDown:
  assumes "0 \<le> sint (ScrollPos m)" "6 \<le> sint (Height m)"
    "sint (ScrollPos m) + (sint (Height m) - 6) < 2 ^ 63"
  shows "sint (ScrollPos (pageDown m)) = min (sint (maxScroll m)) (sint (ScrollPos m) + (sint (Height m) - 6))"
proof -
  have v: "sint (visibleLines m) = sint (Height m) - 6"
    using assms by (simp add: sint_visibleLines)
  have s: "sint (ScrollPos m + visibleLines m) = sint (ScrollPos m) + sint (visibleLines m)"
    using assms by (intro sint_add_small) (simp_all add: v)
  have mm: "maxScroll (m\<lparr>ScrollPos := ScrollPos m + visibleLines m\<rparr>) = maxScroll m"
    by (simp add: maxScroll_def visibleLines_def)
  show ?thesis
    using s v by (simp add: pageDown_def Let_def word_sless_alt mm)
qed

lemma bounds_int:
  assumes "length (Lines m) < 2 ^ 59" "6 \<le> sint (Height m)"
  shows "offset_in_bounds m \<longleftrightarrow>
     0 \<le> sint (ScrollPos m) \<and> sint (ScrollPos m) \<le> max 0 (int (length (Lines m)) - (sint (Height m) - 6))"
proof -
  have "length (Lines m) < 2 ^ 63" using assms(1) by (rule less_trans) simp
  then show ?thesis using assms(2)
    by (simp add: offset_in_bounds_def word_sle_eq sint_maxScroll)
qed

lemma len63: "length (xs :: 'a list) < 2 ^ 59 \<Longrightarrow> length xs < 2 ^ 63"
  by (erule less_trans) simp

lemma scrollUp_in_bounds:
  assumes L: "length (Lines m) < 2 ^ 59" and H: "6 \<le> sint (Height m)" and B: "offset_in_bounds m"
  shows "offset_in_bounds (scrollUp m)"
proof -
  have "offset_in_bounds (scrollUp m) \<longleftrightarrow>
     0 \<le> sint (ScrollPos (scrollUp m)) \<and> sint (ScrollPos (scrollUp m)) \<le> max 0 (int (length (Lines m)) - (sint (Height m) - 6))"
    using bounds_int[of "scrollUp m"] L H by (simp add: scrollUp_frame)
  then show ?thesis using B bounds_int[OF L H] by (simp add: sint_scrollUp)
qed

lemma scrollDown_in_bounds:
  assumes L: "length (Lines m) < 2 ^ 59" and H: "6 \<le> sint (Height m)" and B: "offset_in_bounds m"
  shows "offset_in_bounds (scrollDown m)"
proof -
  have "offset_in_bounds (scrollDown m) \<longleftrightarrow>
     0 \<le> sint (ScrollPos (scrollDown m)) \<and> sint (ScrollPos (scrollDown m)) \<le> max 0 (int (length (Lines m)) - (sint (Height m) - 6))"
    using bounds_int[of "scrollDown m"] L H by (simp add: scrollDown_frame)
  then show ?thesis using B bounds_int[OF L H] sint_maxScroll[OF len63[OF L] H]
    by (simp add: sint_scrollDown)
qed

lemma pageUp_in_bounds:
  assumes L: "length (Lines m) < 2 ^ 59" and H: "6 \<le> sint (Height m)" and B: "offset_in_bounds m"
  shows "offset_in_bounds (pageUp m)"
proof -
  have "offset_in_bounds (pageUp m) \<longleftrightarrow>
     0 \<le> sint (ScrollPos (pageUp m)) \<and> sint (ScrollPos (pageUp m)) \<le> max 0 (int (length (Lines m)) - (sint (Height m) - 6))"
    using bounds_int[of "pageUp m"] L H by (simp add: pageUp_frame)
  moreover have "0 \<le> sint (ScrollPos m)" using B bounds_int[OF L H] by simp
  ultimately show ?thesis using B bounds_int[OF L H] H by (simp add: sint_pageUp)
qed

lemma pageDown_in_bounds:
  assumes L: "length (Lines m) < 2 ^ 59" and H: "6 \<le> sint (Height m)" and B: "offset_in_bounds m"
  shows "offset_in_bounds (pageDown m)"
proof -
  have e: "offset_in_bounds (pageDown m) \<longleftrightarrow>
     0 \<le> sint (ScrollPos (pageDown m)) \<and> sint (ScrollPos (pageDown m)) \<le> max 0 (int (length (Lines m)) - (sint (Height m) - 6))"
    using bounds_int[of "pageDown m"] L H by (simp add: pageDown_frame)
  have s: "0 \<le> sint (ScrollPos m)" "sint (ScrollPos m) \<le> max 0 (int (length (Lines m)) - (sint (Height m) - 6))"
    using B bounds_int[OF L H] by simp_all
  have l: "int (length (Lines m)) < 2 ^ 59" using L by (simp add: of_nat_less_numeral_power_cancel_iff)
  have hb: "sint (Height m) < 2 ^ 63" using sint_range[of "Height m"] by simp
  have ov: "sint (ScrollPos m) + (sint (Height m) - 6) < 2 ^ 63"
    using s l hb H by (auto simp: max_def split: if_splits)
  show ?thesis
    using e s H sint_pageDown[OF s(1) H ov] sint_maxScroll[OF len63[OF L] H]
    by (simp add: min_def max_def split: if_splits)
qed

lemma jumpTop_in_bounds:
  assumes L: "length (Lines m) < 2 ^ 59" and H: "6 \<le> sint (Height m)"
  shows "offset_in_bounds (jumpTop m)"
  using bounds_int[of "jumpTop m"] L H by (simp add: jumpTop_frame)

lemma jumpBottom_in_bounds:
  assumes L: "length (Lines m) < 2 ^ 59" and H: "6 \<le> sint (Height m)"
  shows "offset_in_bounds (jumpBottom m)"
  using bounds_int[of "jumpBottom m"] L H sint_maxScroll[OF len63[OF L] H]
  by (simp add: jumpBottom_frame)

lemma branch_chain:
  "\<exists>f. (if c1 then Inr (scrollUp m, None :: Cmd option)
         else if c2 then Inr (scrollDown m, None)
         else if c3 then Inr (pageUp m, None)
         else if c4 then Inr (pageDown m, None)
         else if c5 then Inr (jumpTop m, None)
         else if c6 then Inr (jumpBottom m, None)
         else Inr (m, None)) = (Inr (f m, None) :: panic + (Model \<times> Cmd option)) \<and>
     (f = scrollUp \<or> f = scrollDown \<or> f = pageUp \<or> f = pageDown \<or> f = jumpTop
      \<or> f = jumpBottom \<or> f = (\<lambda>m. m))"
proof -
  consider c1 | "\<not> c1" c2 | "\<not> c1" "\<not> c2" c3 | "\<not> c1" "\<not> c2" "\<not> c3" c4
    | "\<not> c1" "\<not> c2" "\<not> c3" "\<not> c4" c5 | "\<not> c1" "\<not> c2" "\<not> c3" "\<not> c4" "\<not> c5" c6
    | "\<not> c1" "\<not> c2" "\<not> c3" "\<not> c4" "\<not> c5" "\<not> c6"
    by blast
  then show ?thesis
  proof cases
    case 1
    then show ?thesis by (intro exI[of _ scrollUp]) simp
  next
    case 2
    then show ?thesis by (intro exI[of _ scrollDown]) simp
  next
    case 3
    then show ?thesis by (intro exI[of _ pageUp]) simp
  next
    case 4
    then show ?thesis by (intro exI[of _ pageDown]) simp
  next
    case 5
    then show ?thesis by (intro exI[of _ jumpTop]) simp
  next
    case 6
    then show ?thesis by (intro exI[of _ jumpBottom]) simp
  next
    case 7
    then show ?thesis by (intro exI[of _ "\<lambda>m. m"]) simp
  qed
qed

lemma handleKey_branch:
  assumes "deref_keys (Config m) = Inr kb"
  shows "\<exists>f. handleKey msg m = Inr (f m, None) \<and>
     (f = scrollUp \<or> f = scrollDown \<or> f = pageUp \<or> f = pageDown \<or> f = jumpTop
      \<or> f = jumpBottom \<or> f = (\<lambda>m. m))"
  unfolding handleKey_def Let_def assms sum.case
  by (rule branch_chain)

lemma op_in_bounds:
  assumes L: "length (Lines m) < 2 ^ 59" and H: "6 \<le> sint (Height m)" and B: "offset_in_bounds m"
    and f: "f = scrollUp \<or> f = scrollDown \<or> f = pageUp \<or> f = pageDown \<or> f = jumpTop
      \<or> f = jumpBottom \<or> f = (\<lambda>m. m)"
  shows "offset_in_bounds (f m) \<and> Lines (f m) = Lines m \<and> Height (f m) = Height m
     \<and> Config (f m) = Config m"
  using f
proof (elim disjE)
  assume "f = scrollUp"
  then show ?thesis using scrollUp_in_bounds[OF L H B] by (simp add: scrollUp_frame)
next
  assume "f = scrollDown"
  then show ?thesis using scrollDown_in_bounds[OF L H B] by (simp add: scrollDown_frame)
next
  assume "f = pageUp"
  then show ?thesis using pageUp_in_bounds[OF L H B] by (simp add: pageUp_frame)
next
  assume "f = pageDown"
  then show ?thesis using pageDown_in_bounds[OF L H B] by (simp add: pageDown_frame)
next
  assume "f = jumpTop"
  then show ?thesis using jumpTop_in_bounds[OF L H] by (simp add: jumpTop_frame)
next
  assume "f = jumpBottom"
  then show ?thesis using jumpBottom_in_bounds[OF L H] by (simp add: jumpBottom_frame)
next
  assume "f = (\<lambda>m. m)"
  then show ?thesis using B by simp
qed

lemma view_run_keys_in_bounds:
  assumes "deref_keys (Config m) = Inr kb" "length (Lines m) < 2 ^ 59" "6 \<le> sint (Height m)"
    "offset_in_bounds m"
  shows "\<exists>m'. view_run (map Key ks) m = Inr m' \<and> offset_in_bounds m'"
  using assms
proof (induction ks arbitrary: m)
  case Nil
  then show ?case by simp
next
  case (Cons k ks)
  from handleKey_branch[OF Cons.prems(1), of k]
  obtain f where ff: "handleKey k m = Inr (f m, None) \<and>
     (f = scrollUp \<or> f = scrollDown \<or> f = pageUp \<or> f = pageDown \<or> f = jumpTop
      \<or> f = jumpBottom \<or> f = (\<lambda>m. m))" ..
  from ff have f: "handleKey k m = Inr (f m, None)" by (rule conjunct1)
  from ff have fc: "f = scrollUp \<or> f = scrollDown \<or> f = pageUp \<or> f = pageDown \<or> f = jumpTop
      \<or> f = jumpBottom \<or> f = (\<lambda>m. m)" by (rule conjunct2)
  have p: "offset_in_bounds (f m) \<and> Lines (f m) = Lines m \<and> Height (f m) = Height m
     \<and> Config (f m) = Config m"
    using op_in_bounds[OF Cons.prems(2,3,4) fc] .
  have "\<exists>m'. view_run (map Key ks) (f m) = Inr m' \<and> offset_in_bounds m'"
    using Cons.IH[of "f m"] p Cons.prems by simp
  then show ?case using f by (simp add: view_step_def)
qed

lemma op_weak_bounds:
  assumes L: "length (Lines m) < 2 ^ 59" and H: "10 \<le> sint (Height m)" "sint (Height m) \<le> 40"
    and S: "0 \<le> sint (ScrollPos m)" "sint (ScrollPos m) \<le> max 0 (int (length (Lines m)) - 4)"
    and f: "f = scrollUp \<or> f = scrollDown \<or> f = pageUp \<or> f = pageDown \<or> f = jumpTop
      \<or> f = jumpBottom \<or> f = (\<lambda>m. m)"
  shows "0 \<le> sint (ScrollPos (f m)) \<and> sint (ScrollPos (f m)) \<le> max 0 (int (length (Lines m)) - 4)
     \<and> Lines (f m) = Lines m \<and> Height (f m) = Height m \<and> Config (f m) = Config m"
proof -
  have H6: "6 \<le> sint (Height m)" using H by simp
  have l: "int (length (Lines m)) < 2 ^ 59" using L by (simp add: of_nat_less_numeral_power_cancel_iff)
  have M: "sint (maxScroll m) = max 0 (int (length (Lines m)) - (sint (Height m) - 6))"
    using sint_maxScroll[OF len63[OF L] H6] .
  have ov: "sint (ScrollPos m) + (sint (Height m) - 6) < 2 ^ 63"
    using S l H by (auto simp: max_def split: if_splits)
  have up: "0 \<le> sint (ScrollPos (scrollUp m)) \<and> sint (ScrollPos (scrollUp m)) \<le> max 0 (int (length (Lines m)) - 4)"
    using S by (auto simp: sint_scrollUp max_def split: if_splits)
  have down: "0 \<le> sint (ScrollPos (scrollDown m)) \<and> sint (ScrollPos (scrollDown m)) \<le> max 0 (int (length (Lines m)) - 4)"
    using S M H by (auto simp: sint_scrollDown max_def split: if_splits)
  have pu: "0 \<le> sint (ScrollPos (pageUp m)) \<and> sint (ScrollPos (pageUp m)) \<le> max 0 (int (length (Lines m)) - 4)"
    using S H by (auto simp: sint_pageUp[OF S(1) H6] max_def split: if_splits)
  have pd: "0 \<le> sint (ScrollPos (pageDown m)) \<and> sint (ScrollPos (pageDown m)) \<le> max 0 (int (length (Lines m)) - 4)"
    using S H M by (auto simp: sint_pageDown[OF S(1) H6 ov] max_def min_def split: if_splits)
  have jb: "0 \<le> sint (ScrollPos (jumpBottom m)) \<and> sint (ScrollPos (jumpBottom m)) \<le> max 0 (int (length (Lines m)) - 4)"
    using M H by (auto simp: jumpBottom_frame max_def split: if_splits)
  show ?thesis
    using f
  proof (elim disjE)
    assume "f = scrollUp"
    then show ?thesis using up by (simp add: scrollUp_frame)
  next
    assume "f = scrollDown"
    then show ?thesis using down by (simp add: scrollDown_frame)
  next
    assume "f = pageUp"
    then show ?thesis using pu by (simp add: pageUp_frame)
  next
    assume "f = pageDown"
    then show ?thesis using pd by (simp add: pageDown_frame)
  next
    assume "f = jumpTop"
    then show ?thesis by (simp add: jumpTop_frame)
  next
    assume "f = jumpBottom"
    then show ?thesis using jb by (simp add: jumpBottom_frame)
  next
    assume "f = (\<lambda>m. m)"
    then show ?thesis using S by simp
  qed
qed


lemma SetSize_frame:
  "ScrollPos (SetSize w hh m) = ScrollPos m" "Lines (SetSize w hh m) = Lines m"
  "Config (SetSize w hh m) = Config m" "AutoScroll (SetSize w hh m) = AutoScroll m"
  "output_ptr (SetSize w hh m) = output_ptr m" "ID (SetSize w hh m) = ID m"
  "MaxLines (SetSize w hh m) = MaxLines m"
  by (simp_all add: SetSize_def Let_def)


lemma SetSize_Height: "10 \<le> sint (Height (SetSize w h m)) \<and> sint (Height (SetSize w h m)) \<le> 40"
  by (simp add: SetSize_def Let_def word_sless_alt)


lemma view_run_weak_bounds:
  assumes "deref_keys (Config m) = Inr kb" "length (Lines m) < 2 ^ 59"
    "10 \<le> sint (Height m)" "sint (Height m) \<le> 40"
    "0 \<le> sint (ScrollPos m)" "sint (ScrollPos m) \<le> max 0 (int (length (Lines m)) - 4)"
  shows "\<exists>m'. view_run ops m = Inr m' \<and> 0 \<le> sint (ScrollPos m')
     \<and> sint (ScrollPos m') \<le> max 0 (int (length (Lines m')) - 4)"
  using assms
proof (induction ops arbitrary: m)
  case Nil
  then show ?case by simp
next
  case (Cons op ops)
  show ?case
  proof (cases op)
    case (Key k)
    from handleKey_branch[OF Cons.prems(1), of k]
    obtain f where ff: "handleKey k m = Inr (f m, None) \<and>
       (f = scrollUp \<or> f = scrollDown \<or> f = pageUp \<or> f = pageDown \<or> f = jumpTop
        \<or> f = jumpBottom \<or> f = (\<lambda>m. m))" ..
    from ff have f: "handleKey k m = Inr (f m, None)" by (rule conjunct1)
    from ff have fc: "f = scrollUp \<or> f = scrollDown \<or> f = pageUp \<or> f = pageDown \<or> f = jumpTop
        \<or> f = jumpBottom \<or> f = (\<lambda>m. m)" by (rule conjunct2)
    have p: "0 \<le> sint (ScrollPos (f m)) \<and> sint (ScrollPos (f m)) \<le> max 0 (int (length (Lines m)) - 4)
       \<and> Lines (f m) = Lines m \<and> Height (f m) = Height m \<and> Config (f m) = Config m"
      using op_weak_bounds[OF Cons.prems(2,3,4,5,6) fc] .
    have "\<exists>m'. view_run ops (f m) = Inr m' \<and> 0 \<le> sint (ScrollPos m')
       \<and> sint (ScrollPos m') \<le> max 0 (int (length (Lines m')) - 4)"
      using Cons.IH[of "f m"] p Cons.prems by simp
    then show ?thesis using f Key by (simp add: view_step_def)
  next
    case (Resize w hh)
    have "\<exists>m'. view_run ops (SetSize w hh m) = Inr m' \<and> 0 \<le> sint (ScrollPos m')
       \<and> sint (ScrollPos m') \<le> max 0 (int (length (Lines m')) - 4)"
      using Cons.IH[of "SetSize w hh m"] Cons.prems SetSize_Height[of w hh m]
      by (simp add: SetSize_frame)
    then show ?thesis using Resize by (simp add: view_step_def)
  qed
qed

lemma SetSize_Width:
  "60 \<le> sint (Width (SetSize w h m)) \<and> sint (Width (SetSize w h m)) \<le> 120"
  by (simp add: SetSize_def Let_def word_sless_alt)

lemma m20_cfg: "deref_keys (Config m20) = Inr DefaultKeybindings"
  by (simp add: m20_def demo_model_def New_def SetSize_def Let_def default_config_def deref_keys_def Keys_def)

lemma m20_fields: "Lines m20 = replicate 20 ''x''" "Height m20 = 10" "ScrollPos m20 = 0" "Width m20 = 60"
  "AutoScroll m20 = True"
  by (simp_all add: m20_def demo_model_def New_def SetSize_def Let_def go_div_def word_sless_alt)

lemma m20_max: "maxScroll m20 = 16"
  by (simp add: maxScroll_def visibleLines_def m20_fields go_len_def word_sless_alt)

lemma m20_bounds: "offset_in_bounds m20"
  by (simp add: offset_in_bounds_def m20_max m20_fields word_sle_eq)

lemma G_run: "view_run [Key (key ''G''), Resize 100 100] m20 = Inr (m20\<lparr>ScrollPos := 16, Width := 80, Height := 40\<rparr>)"
  by (simp add: view_step_def handleKey_def m20_cfg Let_def key_def DefaultKeybindings_def Matches_def
      normalizeBinding_def HasPrefix_def jumpBottom_def m20_max SetSize_def go_div_def word_sless_alt m20_fields)

section \<open>The size of the modal\<close>

text \<open>
  Claim C10.  Whatever width and height \<open>SetSize\<close> is given, zero, negative or so large
  that the products wrap around, the modal's width ends between 60 and 120 and its height
  between 10 and 40.  The visible line count \<open>Height - 6\<close> is then computed without
  overflow and lies between 4 and 34.
\<close>

theorem SetSize_bounds:
  "60 \<le>s Width (SetSize width height m) \<and> Width (SetSize width height m) \<le>s 120
   \<and> 10 \<le>s Height (SetSize width height m) \<and> Height (SetSize width height m) \<le>s 40
   \<and> sint (visibleLines (SetSize width height m)) = sint (Height (SetSize width height m)) - 6
   \<and> 4 \<le>s visibleLines (SetSize width height m) \<and> visibleLines (SetSize width height m) \<le>s 34"
proof -
  let ?m = "SetSize width height m"
  have W: "60 \<le> sint (Width ?m) \<and> sint (Width ?m) \<le> 120" by (rule SetSize_Width)
  have H: "10 \<le> sint (Height ?m) \<and> sint (Height ?m) \<le> 40" by (rule SetSize_Height)
  have V: "sint (visibleLines ?m) = sint (Height ?m) - 6"
    using H by (simp add: sint_visibleLines)
  show ?thesis using W H V by (simp add: word_sle_eq)
qed

section \<open>The scroll offset\<close>

text \<open>
  Claim C2, as the code has it.  Take a modal whose key bindings are present and whose
  buffer has a length a slice can have (a string header occupies 16 bytes, so fewer than
  \<open>2 ^ 59\<close> elements).  If at least six rows are configured and the offset starts within
  \<open>[0, maxScroll()]\<close>, every sequence of key messages, whichever of scroll up, scroll
  down, page up, page down, jump to top and jump to bottom each one selects, is handled
  without panic and leaves the offset within \<open>[0, maxScroll()]\<close>.  \<open>SetSize\<close> does not
  touch the offset.  Over sequences that mix key messages and resizes, starting from a
  height between 10 and 40 as \<open>New\<close> and \<open>SetSize\<close> produce, the offset stays within
  \<open>[0, max(0, len(Lines) - 4)]\<close>, the bound of the smallest viewport.
\<close>

theorem scroll_offset_bounds:
  assumes cfg: "deref_keys (Config m) = Inr kb" and L: "length (Lines m) < 2 ^ 59"
  shows "(6 \<le>s Height m \<and> offset_in_bounds m \<longrightarrow>
            (\<exists>m'. view_run (map Key ks) m = Inr m' \<and> offset_in_bounds m'))
    \<and> ScrollPos (SetSize w hh m) = ScrollPos m
    \<and> (10 \<le>s Height m \<and> Height m \<le>s 40 \<and> 0 \<le>s ScrollPos m
         \<and> sint (ScrollPos m) \<le> max 0 (int (length (Lines m)) - 4) \<longrightarrow>
            (\<exists>m'. view_run ops m = Inr m' \<and> 0 \<le>s ScrollPos m'
                  \<and> sint (ScrollPos m') \<le> max 0 (int (length (Lines m')) - 4)))"
proof (intro conjI impI)
  assume a: "6 \<le>s Height m \<and> offset_in_bounds m"
  then have "6 \<le> sint (Height m)" by (simp add: word_sle_eq)
  then show "\<exists>m'. view_run (map Key ks) m = Inr m' \<and> offset_in_bounds m'"
    using view_run_keys_in_bounds[OF cfg L] a by blast
next
  show "ScrollPos (SetSize w hh m) = ScrollPos m" by (simp add: SetSize_frame)
next
  assume a: "10 \<le>s Height m \<and> Height m \<le>s 40 \<and> 0 \<le>s ScrollPos m
         \<and> sint (ScrollPos m) \<le> max 0 (int (length (Lines m)) - 4)"
  then have h: "10 \<le> sint (Height m)" "sint (Height m) \<le> 40" "0 \<le> sint (ScrollPos m)"
    "sint (ScrollPos m) \<le> max 0 (int (length (Lines m)) - 4)"
    by (simp_all add: word_sle_eq)
  have "\<exists>m'. view_run ops m = Inr m' \<and> 0 \<le> sint (ScrollPos m')
     \<and> sint (ScrollPos m') \<le> max 0 (int (length (Lines m')) - 4)"
    using view_run_weak_bounds[OF cfg L h] .
  then show "\<exists>m'. view_run ops m = Inr m' \<and> 0 \<le>s ScrollPos m'
                  \<and> sint (ScrollPos m') \<le> max 0 (int (length (Lines m')) - 4)"
    by (simp add: word_sle_eq)
qed

theorem scroll_offset_bounds_witness:
  "deref_keys (Config m20) = Inr DefaultKeybindings \<and> length (Lines m20) < 2 ^ 59
   \<and> 6 \<le>s Height m20 \<and> offset_in_bounds m20
   \<and> (\<exists>m'. view_run (map Key [key ''G'', key ''k'', key ''ctrl+d'']) m20 = Inr m'
            \<and> offset_in_bounds m')
   \<and> 10 \<le>s Height m20 \<and> Height m20 \<le>s 40 \<and> 0 \<le>s ScrollPos m20
   \<and> sint (ScrollPos m20) \<le> max 0 (int (length (Lines m20)) - 4)
   \<and> (\<exists>m'. view_run [Key (key ''G''), Resize 100 100] m20 = Inr m' \<and> 0 \<le>s ScrollPos m'
            \<and> sint (ScrollPos m') \<le> max 0 (int (length (Lines m')) - 4))"
proof -
  have L: "length (Lines m20) < 2 ^ 59" by (simp add: m20_fields)
  have a: "6 \<le>s Height m20 \<and> offset_in_bounds m20"
    using m20_bounds by (simp add: m20_fields word_sle_eq)
  have b: "10 \<le>s Height m20 \<and> Height m20 \<le>s 40 \<and> 0 \<le>s ScrollPos m20
         \<and> sint (ScrollPos m20) \<le> max 0 (int (length (Lines m20)) - 4)"
    by (simp add: m20_fields word_sle_eq)
  show ?thesis
    using scroll_offset_bounds[OF m20_cfg L, of "[key ''G'', key ''k'', key ''ctrl+d'']" 100 100
        "[Key (key ''G''), Resize 100 100]"] a b m20_cfg L
    by blast
qed

text \<open>
  Claim C2 as stated fails at a resize.  With twenty lines and four visible rows the
  jump to the bottom puts the offset at 16; enlarging the window to 100 by 100 makes
  34 rows visible and the maximum 0, and the offset is still 16.
\<close>

theorem resize_does_not_clamp_counterexample:
  "offset_in_bounds m20
   \<and> view_run [Key (key ''G''), Resize 100 100] m20
        = Inr (m20\<lparr>ScrollPos := 16, Width := 80, Height := 40\<rparr>)
   \<and> maxScroll (m20\<lparr>ScrollPos := 16, Width := 80, Height := 40\<rparr>) = 0
   \<and> \<not> offset_in_bounds (m20\<lparr>ScrollPos := 16, Width := 80, Height := 40\<rparr>)"
proof -
  have mx: "maxScroll (m20\<lparr>ScrollPos := 16, Width := 80, Height := 40\<rparr>) = 0"
    by (simp add: maxScroll_def visibleLines_def m20_fields go_len_def word_sless_alt)
  have nb: "\<not> offset_in_bounds (m20\<lparr>ScrollPos := 16, Width := 80, Height := 40\<rparr>)"
    by (simp add: offset_in_bounds_def mx word_sle_eq)
  show ?thesis using m20_bounds G_run mx nb by simp
qed

section \<open>The auto-scroll flag\<close>

lemma scrollDown_auto:
  "AutoScroll (scrollDown m) \<longleftrightarrow> AutoScroll m \<or> maxScroll (scrollDown m) \<le>s ScrollPos (scrollDown m)"
proof -
  let ?m1 = "if ScrollPos m <s maxScroll m then m\<lparr>ScrollPos := ScrollPos m + 1\<rparr> else m"
  have a: "AutoScroll ?m1 = AutoScroll m" by simp
  have e: "scrollDown m = (if maxScroll ?m1 \<le>s ScrollPos ?m1 then ?m1\<lparr>AutoScroll := True\<rparr> else ?m1)"
    by (simp add: scrollDown_def Let_def)
  have mm: "maxScroll (?m1\<lparr>AutoScroll := True\<rparr>) = maxScroll ?m1"
    by (rule maxScroll_cong) simp_all
  show ?thesis
  proof (cases "maxScroll ?m1 \<le>s ScrollPos ?m1")
    case True
    then have "scrollDown m = ?m1\<lparr>AutoScroll := True\<rparr>" using e by simp
    then show ?thesis using True mm by simp
  next
    case False
    then have "scrollDown m = ?m1" using e by simp
    then show ?thesis using False a by simp
  qed
qed

lemma pageDown_auto:
  "AutoScroll (pageDown m) \<longleftrightarrow> AutoScroll m \<or> maxScroll (pageDown m) \<le>s ScrollPos (pageDown m)"
proof -
  let ?m1 = "m\<lparr>ScrollPos := ScrollPos m + visibleLines m\<rparr>"
  let ?m2 = "if maxScroll ?m1 <s ScrollPos ?m1 then ?m1\<lparr>ScrollPos := maxScroll ?m1\<rparr> else ?m1"
  have a: "AutoScroll ?m2 = AutoScroll m" by simp
  have e: "pageDown m = (if maxScroll ?m2 \<le>s ScrollPos ?m2 then ?m2\<lparr>AutoScroll := True\<rparr> else ?m2)"
    by (simp add: pageDown_def Let_def)
  have mm: "maxScroll (?m2\<lparr>AutoScroll := True\<rparr>) = maxScroll ?m2"
    by (rule maxScroll_cong) simp_all
  show ?thesis
  proof (cases "maxScroll ?m2 \<le>s ScrollPos ?m2")
    case True
    then have "pageDown m = ?m2\<lparr>AutoScroll := True\<rparr>" using e by simp
    then show ?thesis using True mm by simp
  next
    case False
    then have "pageDown m = ?m2" using e by simp
    then show ?thesis using False a by simp
  qed
qed

lemma in_bounds_at_max:
  "offset_in_bounds m \<Longrightarrow> maxScroll m \<le>s ScrollPos m \<longleftrightarrow> ScrollPos m = maxScroll m"
  by (auto simp: offset_in_bounds_def word_sle_eq goint_eq_iff)

text \<open>
  Claim C3, as the code has it.  Scrolling up, paging up and jumping to the top always
  switch auto-scroll off.  Jumping to the bottom puts the offset at \<open>maxScroll()\<close> and
  switches auto-scroll on.  Scrolling down and paging down never switch it off: after
  them auto-scroll is on exactly when it was on before or the offset has reached
  \<open>maxScroll()\<close>, which for an offset that started within bounds means that it equals the
  maximum.
\<close>

theorem auto_scroll_after_operation:
  "AutoScroll (scrollUp m) = False \<and> AutoScroll (pageUp m) = False
   \<and> AutoScroll (jumpTop m) = False \<and> ScrollPos (jumpTop m) = 0
   \<and> AutoScroll (jumpBottom m) = True \<and> ScrollPos (jumpBottom m) = maxScroll (jumpBottom m)
   \<and> (AutoScroll (scrollDown m) \<longleftrightarrow>
        AutoScroll m \<or> maxScroll (scrollDown m) \<le>s ScrollPos (scrollDown m))
   \<and> (AutoScroll (pageDown m) \<longleftrightarrow>
        AutoScroll m \<or> maxScroll (pageDown m) \<le>s ScrollPos (pageDown m))
   \<and> (length (Lines m) < 2 ^ 59 \<and> 6 \<le>s Height m \<and> offset_in_bounds m \<longrightarrow>
        (AutoScroll (scrollDown m) \<longleftrightarrow>
           AutoScroll m \<or> ScrollPos (scrollDown m) = maxScroll (scrollDown m))
      \<and> (AutoScroll (pageDown m) \<longleftrightarrow>
           AutoScroll m \<or> ScrollPos (pageDown m) = maxScroll (pageDown m)))"
proof -
  have jb: "ScrollPos (jumpBottom m) = maxScroll (jumpBottom m)"
    using maxScroll_cong[of "jumpBottom m" m] by (simp add: jumpBottom_frame)
  have eqs: "(AutoScroll (scrollDown m) \<longleftrightarrow>
           AutoScroll m \<or> ScrollPos (scrollDown m) = maxScroll (scrollDown m))
      \<and> (AutoScroll (pageDown m) \<longleftrightarrow>
           AutoScroll m \<or> ScrollPos (pageDown m) = maxScroll (pageDown m))"
    if a: "length (Lines m) < 2 ^ 59 \<and> 6 \<le>s Height m \<and> offset_in_bounds m"
  proof -
    from a have L: "length (Lines m) < 2 ^ 59" and H: "6 \<le> sint (Height m)"
      and B: "offset_in_bounds m" by (simp_all add: word_sle_eq)
    show ?thesis
      using scrollDown_auto[of m] pageDown_auto[of m]
        in_bounds_at_max[OF scrollDown_in_bounds[OF L H B]]
        in_bounds_at_max[OF pageDown_in_bounds[OF L H B]]
      by simp
  qed
  show ?thesis
    using jb scrollDown_auto[of m] pageDown_auto[of m] eqs
    by (simp add: scrollUp_frame pageUp_frame jumpTop_frame jumpBottom_frame)
qed

lemma demo_fields: "Lines demo_model = []" "Height demo_model = 20" "ScrollPos demo_model = 0"
  "AutoScroll demo_model = True" "Config demo_model = default_config" "ID demo_model = 1"
  "output_ptr demo_model = None" "MaxLines demo_model = 1000"
  by (simp_all add: demo_model_def New_def Let_def heap0_def)

lemma demo_cfg: "deref_keys (Config demo_model) = Inr DefaultKeybindings"
  by (simp add: demo_fields default_config_def deref_keys_def Keys_def)

text \<open>
  Claim C3 as stated fails when scrolling up does not leave the bottom.  In a new modal
  every line fits, so the maximum offset is 0; the key \<open>k\<close> scrolls up, the offset stays
  0, equal to the maximum, and auto-scroll is off.
\<close>

theorem auto_scroll_off_at_maximum_counterexample:
  "handleKey (key ''k'') demo_model = Inr (demo_model\<lparr>AutoScroll := False\<rparr>, None)
   \<and> ScrollPos (demo_model\<lparr>AutoScroll := False\<rparr>) = maxScroll (demo_model\<lparr>AutoScroll := False\<rparr>)
   \<and> AutoScroll (demo_model\<lparr>AutoScroll := False\<rparr>) = False"
  by (simp add: handleKey_def default_config_def deref_keys_def Keys_def Let_def key_def DefaultKeybindings_def normalizeBinding_def
      HasPrefix_def scrollUp_def demo_fields maxScroll_def visibleLines_def go_len_def word_sless_alt)

theorem auto_scroll_after_operation_witness:
  "length (Lines m20) < 2 ^ 59 \<and> 6 \<le>s Height m20 \<and> offset_in_bounds m20
   \<and> (AutoScroll (scrollDown m20) \<longleftrightarrow>
           AutoScroll m20 \<or> ScrollPos (scrollDown m20) = maxScroll (scrollDown m20))
   \<and> (AutoScroll (pageDown m20) \<longleftrightarrow>
           AutoScroll m20 \<or> ScrollPos (pageDown m20) = maxScroll (pageDown m20))
   \<and> AutoScroll (scrollUp m20) = False"
proof -
  have a: "length (Lines m20) < 2 ^ 59 \<and> 6 \<le>s Height m20 \<and> offset_in_bounds m20"
    using m20_bounds by (simp add: m20_fields word_sle_eq)
  show ?thesis using auto_scroll_after_operation[of m20] a by blast
qed

section \<open>Session identities and stale ticks\<close>

lemma New_ID:
  "ID (fst (New h cfg t)) = instanceCounter h + 1"
  "instanceCounter (snd (New h cfg t)) = instanceCounter h + 1"
  by (simp_all add: New_def Let_def)

lemma sint_succ:
  fixes c :: goint
  assumes "sint c + 1 < 2 ^ 63"
  shows "sint (c + 1) = sint c + 1"
proof -
  have "sint (c + 1) = sint c + sint (1 :: goint)"
    using assms sint_range[of c] by (intro sint_add_small) simp_all
  then show ?thesis by simp
qed

lemma new_ids_increasing:
  "sint (instanceCounter h) + int (length reqs) < 2 ^ 63
   \<Longrightarrow> sorted_wrt (<s) (new_ids h reqs)
       \<and> list_all (\<lambda>i. instanceCounter h <s i) (new_ids h reqs)"
proof (induction reqs arbitrary: h)
  case Nil
  then show ?case by simp
next
  case (Cons r rest)
  obtain cfg t where r: "r = (cfg, t)" by (cases r)
  let ?h' = "snd (New h cfg t)"
  let ?c = "instanceCounter h"
  have s: "sint (?c + 1) = sint ?c + 1"
    using Cons.prems by (intro sint_succ) simp
  have c': "instanceCounter ?h' = ?c + 1" by (simp add: New_ID)
  have "sint (instanceCounter ?h') + int (length rest) < 2 ^ 63"
    using Cons.prems s c' by simp
  from Cons.IH[OF this]
  have ih: "sorted_wrt (<s) (new_ids ?h' rest)" "list_all (\<lambda>i. ?c + 1 <s i) (new_ids ?h' rest)"
    using c' by simp_all
  have lt: "?c <s ?c + 1" using s by (simp add: word_sless_alt)
  have all: "list_all (\<lambda>i. ?c <s i) (new_ids ?h' rest)"
    using ih(2) lt by (auto simp: list_all_iff word_sless_alt)
  have e: "new_ids h (r # rest) = (?c + 1) # new_ids ?h' rest"
    by (simp add: r split_beta New_ID)
  show ?case
    using ih all lt by (simp add: e list_all_iff)
qed

lemma sink_step_counter: "instanceCounter (sink_step grow p h op) = instanceCounter h"
  by (cases op) (simp_all add: addLine_def append_slice_def setDone_def getLines_def make_slice_def
      copy_slice_def Let_def split_beta)

lemma sink_run_counter: "instanceCounter (sink_run grow p h ops) = instanceCounter h"
  unfolding sink_run_def by (induction ops arbitrary: h) (simp_all add: sink_step_counter)

text \<open>
  Claim C5.  A tick whose ID differs from the modal's ID is dropped: \<open>Update\<close> returns
  the model as it was, no command, and the heap untouched.  \<open>New\<close> assigns the
  incremented counter as ID and stores it; the operations on a sink leave the counter
  alone.  Successive instantiations therefore get strictly increasing IDs, each above the
  counter they started from, as long as the counter stays below the largest \<open>int\<close>
  (which takes \<open>2 ^ 63\<close> instantiations from the initial value 0).
\<close>

theorem stale_tick_ignored:
  "(i \<noteq> ID m \<longrightarrow> Update st grow between h (TickMsg i) m = Inr (m, None, h))
   \<and> ID (fst (New h cfg title)) = instanceCounter h + 1
   \<and> instanceCounter (snd (New h cfg title)) = ID (fst (New h cfg title))
   \<and> instanceCounter (sink_run grow p h ops) = instanceCounter h
   \<and> (sint (instanceCounter h) + int (length reqs) < 2 ^ 63 \<longrightarrow>
        sorted_wrt (<s) (new_ids h reqs)
        \<and> list_all (\<lambda>j. instanceCounter h <s j) (new_ids h reqs))"
  using new_ids_increasing[of h reqs]
  by (simp add: Update_def New_ID sink_run_counter)

lemma started_eval:
  "output_ptr run_model = Some 2" "ID run_model = 1" "Lines run_model = [''$ prog '', []]"
  "MaxLines run_model = 1000" "AutoScroll run_model = True" "Height run_model = 20"
  "Running run_model = True" "Command run_model = ''prog ''"
  "g_output run_goroutine = 2" "fresh run_heap = 3" "instanceCounter run_heap = 1"
  "lines (sinks run_heap 2) = \<lparr>sl_ptr = 1, sl_len = 0, sl_cap = 0\<rparr>"
  "done_flag (sinks run_heap 2) = False" "arrays run_heap (Suc 0) = []"
  by (simp_all add: run_model_def run_goroutine_def run_heap_def started_def RunCommand_def
      RunCommandWithEnv_def New_def Let_def heap0_def make_slice_def demo_model_def plain_def
      tick_def split_beta)

theorem stale_tick_ignored_witness:
  "(7 :: goint) \<noteq> ID run_model
   \<and> Update plain double [] heap_two_lines (TickMsg 7) run_model
       = Inr (run_model, None, heap_two_lines)
   \<and> sint (instanceCounter heap_two_lines)
        + int (length [(default_config, ''a''), (None, ''b'')]) < 2 ^ 63
   \<and> sorted_wrt (<s) (new_ids heap_two_lines [(default_config, ''a''), (None, ''b'')])"
proof -
  have a: "(7 :: goint) \<noteq> ID run_model" by (simp add: started_eval)
  have c: "instanceCounter heap_two_lines = 1"
    by (simp add: heap_two_lines_def sink_run_counter started_eval)
  have b: "sint (instanceCounter heap_two_lines)
        + int (length [(default_config, ''a''), (None, ''b'')]) < 2 ^ 63"
    by (simp add: c)
  show ?thesis
    using stale_tick_ignored[of 7 run_model plain double "[]" heap_two_lines default_config "''a''"
        0 "[]" "[(default_config, ''a''), (None, ''b'')]"] a b
    by blast
qed

section \<open>The display buffer after a tick\<close>

lemma unat_nonneg:
  fixes w :: goint
  assumes "0 \<le> sint w"
  shows "unat w = nat (sint w)"
proof -
  have "sint w < 2 ^ 64" using sint_range[of w] by simp
  then have "take_bit 64 (sint w) = sint w"
    using assms by (intro take_bit_int_eq_self) simp_all
  then have "uint w = sint w" using uint_sint[of w] by simp
  then show ?thesis by (simp add: unat_eq_nat_uint del: nat_uint_eq)
qed

lemma trim_lines_eq:
  assumes M: "0 \<le> sint (MaxLines m)" and L: "length (Lines m) < 2 ^ 62"
  shows "trim_lines m
           = Inr (m\<lparr>Lines := drop (length (Lines m) - nat (sint (MaxLines m))) (Lines m)\<rparr>)"
proof -
  have l63: "length (Lines m) < 2 ^ 63" using L by (rule less_trans) simp
  have li: "int (length (Lines m)) < 2 ^ 62"
    using L by (simp add: of_nat_less_numeral_power_cancel_iff)
  have gl: "sint (go_len (Lines m)) = int (length (Lines m))" using l63 by (rule sint_go_len)
  have mb: "sint (MaxLines m) < 2 ^ 63" using sint_range[of "MaxLines m"] by simp
  show ?thesis
  proof (cases "MaxLines m <s go_len (Lines m)")
    case True
    then have lt: "sint (MaxLines m) < int (length (Lines m))" by (simp add: word_sless_alt gl)
    have d: "sint (go_len (Lines m) - MaxLines m) = int (length (Lines m)) - sint (MaxLines m)"
    proof -
      have "sint (go_len (Lines m) - MaxLines m) = sint (go_len (Lines m)) - sint (MaxLines m)"
        using M lt li by (intro sint_sub_small) (simp_all add: gl)
      then show ?thesis by (simp add: gl)
    qed
    have u: "unat (go_len (Lines m) - MaxLines m) = length (Lines m) - nat (sint (MaxLines m))"
      using unat_nonneg[of "go_len (Lines m) - MaxLines m"] d lt M by (simp add: nat_diff_distrib')
    have "slice_from (Lines m) (go_len (Lines m) - MaxLines m)
            = Inr (drop (length (Lines m) - nat (sint (MaxLines m))) (Lines m))"
      using d lt M by (simp add: slice_from_def word_sle_eq gl u)
    then show ?thesis using True by (simp add: trim_lines_def)
  next
    case False
    then have "int (length (Lines m)) \<le> sint (MaxLines m)" by (simp add: word_sless_alt gl)
    then have "length (Lines m) - nat (sint (MaxLines m)) = 0" by simp
    then show ?thesis using False by (simp add: trim_lines_def)
  qed
qed

lemma handleTick_result:
  fixes st grow between h m p
  defines "snap \<equiv> sl_elems h (lines (sinks h p))"
  defines "full \<equiv> (if snap = [] then Lines m else [Help st (''$ '' @ Command m), []] @ snap)"
  defines "trimmed \<equiv> drop (length full - nat (sint (MaxLines m))) full"
  defines "h2 \<equiv> sink_run grow p (snd (getLines h p)) between"
  assumes p: "output_ptr m = Some p" and ok: "sl_ok h (lines (sinks h p))"
    and M: "0 \<le> sint (MaxLines m)" and L: "length (Lines m) < 2 ^ 59"
    and S: "length (sl_elems h (lines (sinks h p))) < 2 ^ 59"
  shows "\<exists>m'. handleTick st grow between h m
             = Inr (m', (if done_flag (sinks h2 p) then None else Some (Tick (ID m))), h2)
      \<and> Lines m' = trimmed @ (if done_flag (sinks h2 p)
                               then [[], status_line st (err (sinks h2 p))] else [])
      \<and> Running m' = (if done_flag (sinks h2 p) then False else Running m)
      \<and> Err m' = (if done_flag (sinks h2 p) then err (sinks h2 p) else Err m)
      \<and> output_ptr m' = Some p \<and> ID m' = ID m \<and> MaxLines m' = MaxLines m
      \<and> AutoScroll m' = AutoScroll m \<and> Height m' = Height m \<and> Config m' = Config m"
proof -
  let ?m1 = "if 0 < length snap then m\<lparr>Lines := [Help st (''$ '' @ Command m), []] @ snap\<rparr> else m"
  have nl: "sl_elems (snd (getLines h p)) (fst (getLines h p)) = snap"
    unfolding snap_def using getLines_facts(5)[OF ok] .
  have l1: "Lines ?m1 = full" by (simp add: full_def)
  have m1: "MaxLines ?m1 = MaxLines m" by simp
  have "length full < 2 ^ 59 + 2"
    using L S by (simp add: full_def snap_def)
  then have lf: "length (Lines ?m1) < 2 ^ 62" unfolding l1 by (rule less_trans) simp
  have tr: "trim_lines ?m1 = Inr (?m1\<lparr>Lines := trimmed\<rparr>)"
    using trim_lines_eq[of ?m1, OF _ lf] M unfolding l1 m1 trimmed_def by simp
  let ?m2 = "?m1\<lparr>Lines := trimmed\<rparr>"
  let ?m3 = "if AutoScroll ?m2 then ?m2\<lparr>ScrollPos := maxScroll ?m2\<rparr> else ?m2"
  have f3: "Lines ?m3 = trimmed" "ID ?m3 = ID m" "output_ptr ?m3 = Some p"
    "MaxLines ?m3 = MaxLines m" "AutoScroll ?m3 = AutoScroll m" "Height ?m3 = Height m"
    "Config ?m3 = Config m" "Running ?m3 = Running m" "Err ?m3 = Err m"
    using p by simp_all
  have e: "handleTick st grow between h m =
     (if done_flag (sinks h2 p)
      then (let m4 = ?m3\<lparr>Running := False, Err := err (sinks h2 p)\<rparr>;
                m5 = (case err (sinks h2 p) of
                        Some msg \<Rightarrow> m4\<lparr>Lines := Lines m4 @ [[]] @ [Error st (''Error: '' @ msg)]\<rparr>
                      | None \<Rightarrow> m4\<lparr>Lines := Lines m4 @ [[]] @
                                 [Selected st (check_mark @ '' Command completed'')]\<rparr>);
                m6 = (if AutoScroll m5 then m5\<lparr>ScrollPos := maxScroll m5\<rparr> else m5)
            in Inr (m6, None, h2))
      else Inr (?m3, Some (tick ?m3), h2))"
    unfolding handleTick_def p option.case split_beta Let_def nl tr sum.case isDone_def h2_def fst_conv snd_conv
    by (rule refl)
  show ?thesis
  proof (cases "done_flag (sinks h2 p)")
    case False
    then show ?thesis using e f3 by (simp add: tick_def)
  next
    case True
    show ?thesis
    proof (cases "err (sinks h2 p)")
      case None
      then show ?thesis using e True f3 by (simp add: Let_def status_line_def)
    next
      case (Some msg)
      then show ?thesis using e True f3 by (simp add: Let_def status_line_def)
    qed
  qed
qed

lemma run_heap_ok: "sl_ok run_heap (lines (sinks run_heap 2))"
  by (simp add: sl_ok_def started_eval)

lemma five_ops: "goroutine_ops os_five_lines run_goroutine
   = [AddLine ''1'', AddLine ''2'', AddLine ''3'', AddLine ''4'', AddLine ''5'', SetDone None]"
  by (simp add: goroutine_ops_def executeCommandStreaming_def os_five_lines_def quiet_def Let_def)

lemma sink_run_elems:
  "sl_ok h (lines (sinks h p)) \<Longrightarrow>
   sl_elems (sink_run grow p h ops) (lines (sinks (sink_run grow p h ops) p))
     = sl_elems h (lines (sinks h p)) @ added_lines ops"
proof (induction ops arbitrary: h)
  case Nil
  then show ?case by (simp add: sink_run_def)
next
  case (Cons op ops)
  have ok1: "sl_ok (sink_step grow p h op) (lines (sinks (sink_step grow p h op) p))"
    using Cons.prems by (rule sink_step_ok)
  have st: "sl_elems (sink_step grow p h op) (lines (sinks (sink_step grow p h op) p))
      = sl_elems h (lines (sinks h p)) @ added_lines [op]"
    using Cons.prems
    by (cases op) (simp_all add: addLine_elems setDone_elems getLines_sink_elems)
  have "sink_run grow p h (op # ops) = sink_run grow p (sink_step grow p h op) ops"
    by (simp add: sink_run_def)
  then show ?case using Cons.IH[OF ok1] st by (cases op) simp_all
qed

lemma sink_step_done:
  "done_flag (sinks (sink_step grow p h op) p)
     = (case op of SetDone e \<Rightarrow> True | _ \<Rightarrow> done_flag (sinks h p))"
  "err (sinks (sink_step grow p h op) p)
     = (case op of SetDone e \<Rightarrow> e | _ \<Rightarrow> err (sinks h p))"
  by (cases op; simp add: addLine_def append_slice_def setDone_def getLines_def make_slice_def
      copy_slice_def Let_def split_beta)+

lemma five_heap:
  "sl_ok heap_five_lines (lines (sinks heap_five_lines 2))"
  "sl_elems heap_five_lines (lines (sinks heap_five_lines 2)) = [''1'', ''2'', ''3'', ''4'', ''5'']"
  "done_flag (sinks heap_five_lines 2) = True" "err (sinks heap_five_lines 2) = None"
  unfolding heap_five_lines_def
  using sink_run_ok[OF run_heap_ok, of double "goroutine_ops os_five_lines run_goroutine"]
    sink_run_elems[OF run_heap_ok, of double "goroutine_ops os_five_lines run_goroutine"]
  by (simp_all add: five_ops sl_elems_def started_eval sink_run_def sink_step_done setDone_def)

lemma tick_five:
  "tick_lines plain double [] heap_five_lines (run_model\<lparr>MaxLines := 3\<rparr>)
     = Inr ([''3'', ''4'', ''5'', [], check_mark @ '' Command completed''], None)"
proof -
  let ?m = "run_model\<lparr>MaxLines := 3\<rparr>"
  have p: "output_ptr ?m = Some 2" by (simp add: started_eval)
  have M: "0 \<le> sint (MaxLines ?m)" by simp
  have L: "length (Lines ?m) < 2 ^ 59" by (simp add: started_eval)
  have S: "length (sl_elems heap_five_lines (lines (sinks heap_five_lines 2))) < 2 ^ 59"
    by (simp add: five_heap)
  have d: "done_flag (sinks (sink_run double 2 (snd (getLines heap_five_lines 2)) []) 2) = True"
    "err (sinks (sink_run double 2 (snd (getLines heap_five_lines 2)) []) 2) = None"
    using getLines_facts(1)[OF five_heap(1)] by (simp_all add: sink_run_def five_heap)
  from handleTick_result[OF p five_heap(1) M L S, of plain double "[]"]
  show ?thesis
    unfolding d five_heap(2)
    by (auto simp: tick_lines_def status_line_def plain_def)
qed

lemma interleave_no_stderr: "interleave bs xs [] = xs"
  by (cases xs) simp_all

lemma added_lines_AddLine: "added_lines (map AddLine ls @ ops) = ls @ added_lines ops"
  by (induction ls) simp_all

lemma sink_run_snoc:
  "sink_run grow p h (ops @ [op]) = sink_step grow p (sink_run grow p h ops) op"
  by (simp add: sink_run_def)

lemma sink_run_AddLines_done:
  "done_flag (sinks (sink_run grow p h (map AddLine ls)) p) = done_flag (sinks h p)"
  unfolding sink_run_def
  by (induction ls arbitrary: h) (simp_all add: sink_step_done[where op = "AddLine x" for x, simplified])


lemma five_running_heap:
  "sl_ok heap_five_running (lines (sinks heap_five_running 2))"
  "sl_elems heap_five_running (lines (sinks heap_five_running 2)) = [''1'', ''2'', ''3'', ''4'', ''5'']"
  "done_flag (sinks heap_five_running 2) = False"
proof -
  show "sl_ok heap_five_running (lines (sinks heap_five_running 2))"
    unfolding heap_five_running_def using run_heap_ok by (rule sink_run_ok)
  show "sl_elems heap_five_running (lines (sinks heap_five_running 2)) = [''1'', ''2'', ''3'', ''4'', ''5'']"
    unfolding heap_five_running_def
    using sink_run_elems[OF run_heap_ok, of double "map AddLine [''1'', ''2'', ''3'', ''4'', ''5'']"]
    by (simp add: sl_elems_def started_eval)
  show "done_flag (sinks heap_five_running 2) = False"
    unfolding heap_five_running_def by (simp only: sink_run_AddLines_done started_eval)
qed

lemma thousand_ops: "goroutine_ops os_thousand_lines run_goroutine
   = map AddLine (replicate 1000 ''out'') @ [SetDone None]"
  by (simp add: goroutine_ops_def executeCommandStreaming_def os_thousand_lines_def quiet_def
      Let_def interleave_no_stderr)

lemma run_heap_empty: "sl_elems run_heap (lines (sinks run_heap 2)) = []"
  by (simp add: sl_elems_def started_eval)

lemma thousand_heap:
  "sl_ok heap_thousand_lines (lines (sinks heap_thousand_lines 2))"
  "sl_elems heap_thousand_lines (lines (sinks heap_thousand_lines 2)) = replicate 1000 ''out''"
  "done_flag (sinks heap_thousand_lines 2) = True" "err (sinks heap_thousand_lines 2) = None"
proof -
  show "sl_ok heap_thousand_lines (lines (sinks heap_thousand_lines 2))"
    unfolding heap_thousand_lines_def using run_heap_ok by (rule sink_run_ok)
  have "sl_elems heap_thousand_lines (lines (sinks heap_thousand_lines 2))
      = sl_elems run_heap (lines (sinks run_heap 2))
        @ added_lines (map AddLine (replicate 1000 ''out'') @ [SetDone None])"
    unfolding heap_thousand_lines_def thousand_ops using run_heap_ok by (rule sink_run_elems)
  then show "sl_elems heap_thousand_lines (lines (sinks heap_thousand_lines 2)) = replicate 1000 ''out''"
    by (simp only: added_lines_AddLine run_heap_empty added_lines.simps append_Nil append_Nil2)
  show "done_flag (sinks heap_thousand_lines 2) = True" "err (sinks heap_thousand_lines 2) = None"
    unfolding heap_thousand_lines_def thousand_ops sink_run_snoc
    by (simp_all add: setDone_def)
qed

lemma tick_observed:
  fixes st grow between h m p
  defines "snap \<equiv> sl_elems h (lines (sinks h p))"
  defines "full \<equiv> (if snap = [] then Lines m else [Help st (''$ '' @ Command m), []] @ snap)"
  defines "h2 \<equiv> sink_run grow p (snd (getLines h p)) between"
  defines "buf \<equiv> drop (length full - nat (sint (MaxLines m))) full
                   @ (if done_flag (sinks h2 p) then [[], status_line st (err (sinks h2 p))]
                      else [])"
  assumes p: "output_ptr m = Some p" and ok: "sl_ok h (lines (sinks h p))"
    and M: "0 \<le> sint (MaxLines m)" and L: "length (Lines m) < 2 ^ 59"
    and S: "length (sl_elems h (lines (sinks h p))) < 2 ^ 59"
  shows "tick_lines st grow between h m
           = Inr (buf, if done_flag (sinks h2 p) then None else Some (Tick (ID m)))"
    and "tick_output st grow between h m
           = Inr (if length buf \<le> 2 then [] else Join (drop 2 buf) [CHR 0x0A])"
proof -
  from handleTick_result[OF p ok M L S, of st grow between]
  obtain m' where r: "handleTick st grow between h m
             = Inr (m', (if done_flag (sinks h2 p) then None else Some (Tick (ID m))), h2)"
    and ls: "Lines m' = buf"
    unfolding buf_def full_def snap_def h2_def by (elim exE conjE)
  show "tick_lines st grow between h m
           = Inr (buf, if done_flag (sinks h2 p) then None else Some (Tick (ID m)))"
    using r ls by (simp add: tick_lines_def)
  show "tick_output st grow between h m
           = Inr (if length buf \<le> 2 then [] else Join (drop 2 buf) [CHR 0x0A])"
    using r ls by (simp add: tick_output_def GetOutput_def)
qed

lemma tick_after_getLines:
  assumes "sl_ok h (lines (sinks h p))"
  shows "done_flag (sinks (sink_run grow p (snd (getLines h p)) []) p) = done_flag (sinks h p)"
    and "err (sinks (sink_run grow p (snd (getLines h p)) []) p) = err (sinks h p)"
  using getLines_facts(1)[OF assms] by (simp_all add: sink_run_def)

lemma run3_facts:
  "output_ptr (run_model\<lparr>MaxLines := 3\<rparr>) = Some 2"
  "0 \<le> sint (MaxLines (run_model\<lparr>MaxLines := 3\<rparr>))"
  "length (Lines (run_model\<lparr>MaxLines := 3\<rparr>)) < 2 ^ 59"
  by (simp_all add: started_eval)

lemma tick_five_running:
  "tick_lines plain double [] heap_five_running (run_model\<lparr>MaxLines := 3\<rparr>)
     = Inr ([''3'', ''4'', ''5''], Some (Tick 1))"
proof -
  have S: "length (sl_elems heap_five_running (lines (sinks heap_five_running 2))) < 2 ^ 59"
    by (simp add: five_running_heap)
  show ?thesis
    unfolding tick_observed(1)[OF run3_facts(1) five_running_heap(1) run3_facts(2,3) S]
      tick_after_getLines[OF five_running_heap(1)] five_running_heap(2,3)
    by (simp add: started_eval)
qed

lemma tick_five_output:
  "tick_output plain double [] heap_five_lines (run_model\<lparr>MaxLines := 3\<rparr>)
     = Inr (''5'' @ [CHR 0x0A] @ [CHR 0x0A] @ check_mark @ '' Command completed'')"
proof -
  have S: "length (sl_elems heap_five_lines (lines (sinks heap_five_lines 2))) < 2 ^ 59"
    by (simp add: five_heap)
  show ?thesis
    unfolding tick_observed(2)[OF run3_facts(1) five_heap(1) run3_facts(2,3) S]
      tick_after_getLines[OF five_heap(1)] five_heap(2,3,4)
    by (simp add: started_eval status_line_def plain_def)
qed

lemma run_model_facts:
  "0 \<le> sint (MaxLines run_model)" "length (Lines run_model) < 2 ^ 59"
  by (simp_all add: started_eval)

lemma tick_thousand:
  "tick_lines plain double [] heap_thousand_lines run_model
     = Inr (replicate 1000 ''out'' @ [[], check_mark @ '' Command completed''], None)"
proof -
  have S: "length (sl_elems heap_thousand_lines (lines (sinks heap_thousand_lines 2))) < 2 ^ 59"
    by (simp add: thousand_heap)
  have ne: "replicate 1000 ''out'' \<noteq> []" by simp
  have n: "nat (sint (MaxLines run_model)) = 1000" by (simp add: started_eval)
  have d: "drop (length ([Help plain (''$ '' @ Command run_model), []] @ replicate 1000 ''out'') - 1000)
             ([Help plain (''$ '' @ Command run_model), []] @ replicate 1000 ''out'')
           = replicate 1000 ''out''"
    by simp
  show ?thesis
    unfolding tick_observed(1)[OF started_eval(1) thousand_heap(1) run_model_facts S]
      tick_after_getLines[OF thousand_heap(1)] thousand_heap(2,3,4) n
    using ne d by (simp add: status_line_def plain_def del: replicate_Suc)
qed

text \<open>
  Claim C4 says that after every tick the buffer holds at most \<open>MaxLines\<close> lines and
  that, when the limit is exceeded, the oldest lines go first while the header stays:
  with the limit \<open>N\<close> and \<open>N + k\<close> output lines, the last \<open>N\<close> output lines together with
  the header.  The code does not keep the header.  The tick rebuilds the buffer as the
  header followed by the snapshot (its comment reads: keeping the command header) and
  then keeps the last \<open>MaxLines\<close> lines of that, so the header, being the oldest, is
  the first to go.  With the limit 3 and the output lines 1 to 5 of a running command
  the buffer after the tick is 3, 4, 5, without the header.  For the finished command
  the empty line and the status line come after the trim: five lines for a limit of 3,
  and \<open>GetOutput\<close>, which skips the first two lines of the buffer as the header, returns
  the line 5, the empty line and the status line, so the output lines 3 and 4 are lost.
  With the limit 1000 that \<open>New\<close> sets, a finished command that printed a thousand lines
  leaves those thousand lines and the two closing lines, and no header.
\<close>

theorem tick_drops_header:
  "Lines (run_model\<lparr>MaxLines := 3\<rparr>) = [''$ prog '', []]
   \<and> snapshot heap_five_running 2 = [''1'', ''2'', ''3'', ''4'', ''5'']
   \<and> tick_lines plain double [] heap_five_running (run_model\<lparr>MaxLines := 3\<rparr>)
       = Inr ([''3'', ''4'', ''5''], Some (Tick 1))
   \<and> snapshot heap_five_lines 2 = [''1'', ''2'', ''3'', ''4'', ''5'']
   \<and> tick_lines plain double [] heap_five_lines (run_model\<lparr>MaxLines := 3\<rparr>)
       = Inr ([''3'', ''4'', ''5'', [], check_mark @ '' Command completed''], None)
   \<and> tick_output plain double [] heap_five_lines (run_model\<lparr>MaxLines := 3\<rparr>)
       = Inr (''5'' @ [CHR 0x0A] @ [CHR 0x0A] @ check_mark @ '' Command completed'')
   \<and> MaxLines run_model = 1000 \<and> Lines run_model = [''$ prog '', []]
   \<and> snapshot heap_thousand_lines 2 = replicate 1000 ''out''
   \<and> tick_lines plain double [] heap_thousand_lines run_model
       = Inr (replicate 1000 ''out'' @ [[], check_mark @ '' Command completed''], None)"
  using tick_five_running tick_five tick_five_output tick_thousand
    snapshot_eq[OF five_running_heap(1)] snapshot_eq[OF five_heap(1)]
    snapshot_eq[OF thousand_heap(1)]
  by (simp add: started_eval five_running_heap five_heap thousand_heap del: replicate_Suc)

section \<open>The raw output\<close>

lemma GetRawOutput_eq:
  assumes p: "output_ptr m = Some p" and ok: "sl_ok h (lines (sinks h p))"
  shows "fst (GetRawOutput h m) = Join (sl_elems h (lines (sinks h p))) [CHR 0x0A]"
  using getLines_facts(5)[OF ok] by (simp add: GetRawOutput_def p split_beta)

lemma RunCommandWithEnv_facts:
  fixes st h env name args m
  defines "r \<equiv> RunCommandWithEnv st h env name args m"
  shows "output_ptr (fst r) = Some (Suc (fresh h))"
    and "g_output (fst (snd (snd r))) = Suc (fresh h)"
    and "g_dir (fst (snd (snd r))) = Dir m" and "g_env (fst (snd (snd r))) = env"
    and "g_name (fst (snd (snd r))) = name" and "g_args (fst (snd (snd r))) = args"
    and "fst (snd r) = Some (Tick (ID m))"
    and "Running (fst r) = True" and "Err (fst r) = None" and "ScrollPos (fst r) = 0"
    and "Lines (fst r) = [Help st (''$ '' @ name @ '' '' @ Join args '' ''), []]"
    and "Command (fst r) = name @ '' '' @ Join args '' ''"
    and "MaxLines (fst r) = MaxLines m" and "ID (fst r) = ID m"
    and "sl_ok (snd (snd (snd r))) (lines (sinks (snd (snd (snd r))) (Suc (fresh h))))"
    and "sl_elems (snd (snd (snd r))) (lines (sinks (snd (snd (snd r))) (Suc (fresh h)))) = []"
    and "done_flag (sinks (snd (snd (snd r))) (Suc (fresh h))) = False"
  unfolding r_def
  by (simp_all add: RunCommandWithEnv_def Let_def make_slice_def split_beta tick_def sl_ok_def
      sl_elems_def)

lemma added_lines_append: "added_lines (xs @ ys) = added_lines xs @ added_lines ys"
  by (induction xs rule: added_lines.induct) simp_all

lemma added_lines_map: "added_lines (map AddLine ls) = ls"
  by (induction ls) simp_all

text \<open>
  Claim C7.  For a modal with a well-formed sink, \<open>GetRawOutput\<close> is the lines of the
  sink joined by newlines: the lines it held plus, in order, those appended since.  The
  display buffer and its limit play no part: changing \<open>Lines\<close> and \<open>MaxLines\<close> does not
  change the raw output, and after a tick, whatever it trimmed or appended to the
  display, the raw output is still the join of the sink's lines.  End to end: after
  \<open>RunCommandWithEnv\<close> and the complete run of the goroutine it started, the raw output
  is the join of the lines that \<open>executeCommandStreaming\<close> passed to \<open>addLine\<close>.  For a
  command that prints \<open>line1\<close> and \<open>line2\<close> and exits with status 0 this is
  \<open>line1\<close>, a newline, \<open>line2\<close>, as the example after the theorem shows.
\<close>

theorem raw_output_is_sink_lines:
  "(output_ptr m = Some p \<and> sl_ok h (lines (sinks h p)) \<longrightarrow>
      fst (GetRawOutput h m) = Join (sl_elems h (lines (sinks h p))) [CHR 0x0A]
    \<and> fst (GetRawOutput (sink_run grow p h ops) m)
        = Join (sl_elems h (lines (sinks h p)) @ added_lines ops) [CHR 0x0A]
    \<and> fst (GetRawOutput h (m\<lparr>Lines := ls, MaxLines := k\<rparr>)) = fst (GetRawOutput h m)
    \<and> (0 \<le>s MaxLines m \<and> length (Lines m) < 2 ^ 59 \<and> length (snapshot h p) < 2 ^ 59 \<longrightarrow>
         (\<exists>m' c h'. handleTick st grow between h m = Inr (m', c, h')
            \<and> fst (GetRawOutput h' m')
                = Join (sl_elems h (lines (sinks h p)) @ added_lines between) [CHR 0x0A])))
   \<and> fst (GetRawOutput
          (sink_run grow (g_output (fst (snd (snd (RunCommandWithEnv st h0 env name args m0)))))
             (snd (snd (snd (RunCommandWithEnv st h0 env name args m0))))
             (goroutine_ops os (fst (snd (snd (RunCommandWithEnv st h0 env name args m0))))))
          (fst (RunCommandWithEnv st h0 env name args m0)))
       = Join (added_lines (fst (executeCommandStreaming os (Dir m0) env name args))) [CHR 0x0A]"
proof (intro conjI impI)
  assume a: "output_ptr m = Some p \<and> sl_ok h (lines (sinks h p))"
  then have p: "output_ptr m = Some p" and ok: "sl_ok h (lines (sinks h p))" by simp_all
  show "fst (GetRawOutput h m) = Join (sl_elems h (lines (sinks h p))) [CHR 0x0A]"
    using p ok by (rule GetRawOutput_eq)
  show "fst (GetRawOutput (sink_run grow p h ops) m)
        = Join (sl_elems h (lines (sinks h p)) @ added_lines ops) [CHR 0x0A]"
    using GetRawOutput_eq[OF p sink_run_ok[OF ok, of grow ops]] sink_run_elems[OF ok, of grow ops]
    by simp
  show "fst (GetRawOutput h (m\<lparr>Lines := ls, MaxLines := k\<rparr>)) = fst (GetRawOutput h m)"
    by (simp add: GetRawOutput_def)
  assume b: "0 \<le>s MaxLines m \<and> length (Lines m) < 2 ^ 59 \<and> length (snapshot h p) < 2 ^ 59"
  let ?h1 = "snd (getLines h p)"
  let ?h2 = "sink_run grow p ?h1 between"
  have M: "0 \<le> sint (MaxLines m)" using b by (simp add: word_sle_eq)
  have S: "length (sl_elems h (lines (sinks h p))) < 2 ^ 59" using b snapshot_eq[OF ok] by simp
  have L: "length (Lines m) < 2 ^ 59" using b by simp
  from handleTick_result[OF p ok M L S, of st grow between]
  obtain m' where r: "handleTick st grow between h m
             = Inr (m', (if done_flag (sinks ?h2 p) then None else Some (Tick (ID m))), ?h2)"
    and pm: "output_ptr m' = Some p"
    by (elim exE conjE)
  have ok1: "sl_ok ?h1 (lines (sinks ?h1 p))" using ok by (rule getLines_ok)
  have "fst (GetRawOutput ?h2 m')
      = Join (sl_elems ?h1 (lines (sinks ?h1 p)) @ added_lines between) [CHR 0x0A]"
    using GetRawOutput_eq[OF pm sink_run_ok[OF ok1, of grow between]]
      sink_run_elems[OF ok1, of grow between] by simp
  then have "fst (GetRawOutput ?h2 m')
      = Join (sl_elems h (lines (sinks h p)) @ added_lines between) [CHR 0x0A]"
    using getLines_sink_elems[OF ok] by simp
  then show "\<exists>m' c h'. handleTick st grow between h m = Inr (m', c, h')
            \<and> fst (GetRawOutput h' m')
                = Join (sl_elems h (lines (sinks h p)) @ added_lines between) [CHR 0x0A]"
    using r by blast
next
  let ?r = "RunCommandWithEnv st h0 env name args m0"
  let ?g = "fst (snd (snd ?r))"
  let ?h1 = "snd (snd (snd ?r))"
  have g: "g_output ?g = Suc (fresh h0)" by (rule RunCommandWithEnv_facts)
  have p: "output_ptr (fst ?r) = Some (Suc (fresh h0))" by (rule RunCommandWithEnv_facts)
  have ok: "sl_ok ?h1 (lines (sinks ?h1 (Suc (fresh h0))))" by (rule RunCommandWithEnv_facts)
  have em: "sl_elems ?h1 (lines (sinks ?h1 (Suc (fresh h0)))) = []"
    by (rule RunCommandWithEnv_facts)
  have ops: "added_lines (goroutine_ops os ?g)
      = added_lines (fst (executeCommandStreaming os (Dir m0) env name args))"
    by (simp add: goroutine_ops_def split_beta added_lines_append RunCommandWithEnv_facts)
  show "fst (GetRawOutput (sink_run grow (g_output ?g) ?h1 (goroutine_ops os ?g)) (fst ?r))
       = Join (added_lines (fst (executeCommandStreaming os (Dir m0) env name args))) [CHR 0x0A]"
    unfolding g
    using GetRawOutput_eq[OF p sink_run_ok[OF ok, of grow "goroutine_ops os ?g"]]
      sink_run_elems[OF ok, of grow "goroutine_ops os ?g"] em ops
    by simp
qed

lemma two_ops: "goroutine_ops os_two_lines run_goroutine
   = [AddLine ''line1'', AddLine ''line2'', SetDone None]"
  by (simp add: goroutine_ops_def executeCommandStreaming_def os_two_lines_def quiet_def Let_def)

lemma two_heap:
  "sl_ok heap_two_lines (lines (sinks heap_two_lines 2))"
  "sl_elems heap_two_lines (lines (sinks heap_two_lines 2)) = [''line1'', ''line2'']"
  "done_flag (sinks heap_two_lines 2) = True" "err (sinks heap_two_lines 2) = None"
  unfolding heap_two_lines_def
  using sink_run_ok[OF run_heap_ok, of double "goroutine_ops os_two_lines run_goroutine"]
    sink_run_elems[OF run_heap_ok, of double "goroutine_ops os_two_lines run_goroutine"]
  by (simp_all add: two_ops sl_elems_def started_eval sink_run_def sink_step_done setDone_def)

theorem raw_output_is_sink_lines_witness:
  "output_ptr run_model = Some 2 \<and> sl_ok heap_two_lines (lines (sinks heap_two_lines 2))
   \<and> 0 \<le>s MaxLines run_model \<and> length (Lines run_model) < 2 ^ 59
   \<and> length (snapshot heap_two_lines 2) < 2 ^ 59
   \<and> fst (GetRawOutput heap_two_lines run_model) = ''line1'' @ [CHR 0x0A] @ ''line2''
   \<and> (\<exists>m' c h'. handleTick plain double [] heap_two_lines run_model = Inr (m', c, h')
          \<and> fst (GetRawOutput h' m') = ''line1'' @ [CHR 0x0A] @ ''line2'')"
proof -
  have a: "output_ptr run_model = Some 2 \<and> sl_ok heap_two_lines (lines (sinks heap_two_lines 2))"
    by (simp add: started_eval two_heap)
  have sn: "snapshot heap_two_lines 2 = [''line1'', ''line2'']"
    using snapshot_eq[OF two_heap(1)] by (simp add: two_heap)
  have b: "0 \<le>s MaxLines run_model \<and> length (Lines run_model) < 2 ^ 59
     \<and> length (snapshot heap_two_lines 2) < 2 ^ 59"
    by (simp add: started_eval sn word_sle_eq)
  have j: "Join ([''line1'', ''line2''] @ added_lines []) [CHR 0x0A] = ''line1'' @ [CHR 0x0A] @ ''line2''"
    by simp
  show ?thesis
    using raw_output_is_sink_lines[where m = run_model and p = 2 and h = heap_two_lines
        and grow = double and ops = "[]" and st = plain and between = "[]"] a b
    unfolding two_heap(2) j
    by (simp del: append.simps)
qed

section \<open>A program that fails to launch\<close>

lemma spawn_error_exec:
  assumes "spawn_error (os (configured_cmd dir env name args)) = Some e"
  shows "executeCommandStreaming os dir env name args = ([], Some e)"
  using assms
  by (auto simp: executeCommandStreaming_def spawn_error_def Let_def split: option.splits)

lemma spawn_failure_tick:
  fixes st h env name args m os grow e
  defines "r \<equiv> RunCommandWithEnv st h env name args m"
  defines "p \<equiv> Suc (fresh h)"
  defines "hf \<equiv> sink_run grow p (snd (snd (snd r))) (goroutine_ops os (fst (snd (snd r))))"
  assumes sp: "spawn_error (os (configured_cmd (Dir m) env name args)) = Some e"
  shows "goroutine_ops os (fst (snd (snd r))) = [SetDone (Some e)]"
    and "sl_ok hf (lines (sinks hf p))"
    and "sl_elems hf (lines (sinks hf p)) = []"
    and "done_flag (sinks hf p) = True" and "err (sinks hf p) = Some e"
proof -
  let ?g = "fst (snd (snd r))"
  let ?h1 = "snd (snd (snd r))"
  have ex: "executeCommandStreaming os (Dir m) env name args = ([], Some e)"
    using sp by (rule spawn_error_exec[of os "Dir m" env name args e])
  show g: "goroutine_ops os ?g = [SetDone (Some e)]"
    unfolding r_def
    by (simp add: goroutine_ops_def RunCommandWithEnv_facts ex)
  have ok1: "sl_ok ?h1 (lines (sinks ?h1 p))" unfolding r_def p_def by (rule RunCommandWithEnv_facts)
  have em: "sl_elems ?h1 (lines (sinks ?h1 p)) = []" unfolding r_def p_def by (rule RunCommandWithEnv_facts)
  have hf: "hf = setDone ?h1 p (Some e)" unfolding hf_def g by (simp add: sink_run_def)
  show "sl_ok hf (lines (sinks hf p))" unfolding hf using ok1 by (rule setDone_ok)
  show "sl_elems hf (lines (sinks hf p)) = []" unfolding hf using em by (simp add: setDone_elems)
  show "done_flag (sinks hf p) = True" "err (sinks hf p) = Some e"
    unfolding hf by (simp_all add: setDone_def)
qed

lemma spawn_failure_display:
  fixes st h env name args m os grow e
  defines "r \<equiv> RunCommandWithEnv st h env name args m"
  defines "p \<equiv> Suc (fresh h)"
  defines "hf \<equiv> sink_run grow p (snd (snd (snd r))) (goroutine_ops os (fst (snd (snd r))))"
  assumes sp: "spawn_error (os (configured_cmd (Dir m) env name args)) = Some e"
    and M: "2 \<le> sint (MaxLines m)"
  shows "\<exists>m' h'. handleTick st grow [] hf (fst r) = Inr (m', None, h')
       \<and> Running m' = False \<and> Err m' = Some e
       \<and> Lines m' = [Help st (''$ '' @ name @ '' '' @ Join args '' ''), [], [],
                      Error st (''Error: '' @ e)]
       \<and> fst (GetRawOutput h' m') = []"
proof -
  have f: "goroutine_ops os (fst (snd (snd r))) = [SetDone (Some e)]"
    "sl_ok hf (lines (sinks hf p))" "sl_elems hf (lines (sinks hf p)) = []"
    "done_flag (sinks hf p) = True" "err (sinks hf p) = Some e"
    unfolding r_def p_def hf_def
    using spawn_failure_tick(1)[where os = os and m = m and env = env and name = name
        and args = args and e = e and st = st and h = h, OF sp]
      spawn_failure_tick(2-5)[where os = os and m = m and env = env and name = name
        and args = args and e = e and st = st and h = h and grow = grow, OF sp]
    by simp_all
  let ?m1 = "fst r"
  let ?h2 = "sink_run grow p (snd (getLines hf p)) []"
  have pm: "output_ptr ?m1 = Some p" unfolding r_def p_def by (rule RunCommandWithEnv_facts)
  have ml: "MaxLines ?m1 = MaxLines m" unfolding r_def by (rule RunCommandWithEnv_facts)
  have ln: "Lines ?m1 = [Help st (''$ '' @ name @ '' '' @ Join args '' ''), []]"
    unfolding r_def by (rule RunCommandWithEnv_facts)
  have M0: "0 \<le> sint (MaxLines ?m1)" using M ml by simp
  have L: "length (Lines ?m1) < 2 ^ 59" by (simp add: ln)
  have S: "length (sl_elems hf (lines (sinks hf p))) < 2 ^ 59" by (simp add: f(3))
  have h2: "?h2 = snd (getLines hf p)" by (simp add: sink_run_def)
  have d: "done_flag (sinks ?h2 p) = True" "err (sinks ?h2 p) = Some e"
    unfolding h2 using getLines_facts(1)[OF f(2)] f(4,5) by simp_all
  have ok2: "sl_ok ?h2 (lines (sinks ?h2 p))" unfolding h2 using f(2) by (rule getLines_ok)
  have e2: "sl_elems ?h2 (lines (sinks ?h2 p)) = []"
    unfolding h2 using getLines_sink_elems[OF f(2)] f(3) by simp
  have n2: "Suc (Suc 0) - nat (sint (MaxLines m)) = 0" using M by simp
  from handleTick_result[OF pm f(2) M0 L S, of st grow "[]"]
  obtain m' where r': "handleTick st grow [] hf ?m1
             = Inr (m', (if done_flag (sinks ?h2 p) then None else Some (Tick (ID ?m1))), ?h2)"
    and ls: "Lines m' = drop (length (if sl_elems hf (lines (sinks hf p)) = [] then Lines ?m1
                 else [Help st (''$ '' @ Command ?m1), []] @ sl_elems hf (lines (sinks hf p)))
               - nat (sint (MaxLines ?m1)))
             (if sl_elems hf (lines (sinks hf p)) = [] then Lines ?m1
                 else [Help st (''$ '' @ Command ?m1), []] @ sl_elems hf (lines (sinks hf p)))
          @ (if done_flag (sinks ?h2 p) then [[], status_line st (err (sinks ?h2 p))] else [])"
    and ru: "Running m' = (if done_flag (sinks ?h2 p) then False else Running ?m1)"
    and er: "Err m' = (if done_flag (sinks ?h2 p) then err (sinks ?h2 p) else Err ?m1)"
    and pm': "output_ptr m' = Some p"
    by (elim exE conjE)
  have raw: "fst (GetRawOutput ?h2 m') = []"
    using GetRawOutput_eq[OF pm' ok2] e2 by simp
  have "Lines m' = [Help st (''$ '' @ name @ '' '' @ Join args '' ''), [], [],
                      Error st (''Error: '' @ e)]"
    using ls unfolding d f(3) ml by (simp add: ln n2 status_line_def)
  then show ?thesis using r' ru er raw unfolding d by auto
qed

lemma close_calls_callback:
  assumes c: "ShouldClose k (Terminal tm) = Inr True" and cb: "TerminalCallback tm = Some cb"
    and p: "output_ptr (Terminal tm) = Some p" and ok: "sl_ok h (lines (sinks h p))"
  shows "\<exists>tm' h'. UpdateTerminalView run_cb st grow h k tm
      = Inr (tm', None, h', [(cb, Join (sl_elems h (lines (sinks h p))) [CHR 0x0A])])
      \<and> TerminalCallback tm' = None"
  using GetRawOutput_eq[OF p ok]
  by (simp add: UpdateTerminalView_def c cb split_beta Let_def)

lemma not_found_spawn:
  "spawn_error (os_not_found (configured_cmd (Dir demo_model) None ''prog'' []))
     = Some ''executable file not found''"
  by (simp add: spawn_error_def os_not_found_def quiet_def)

lemma started_unfold:
  "RunCommandWithEnv plain (snd (New heap0 default_config ''demo'')) None ''prog'' [] demo_model
     = started"
  by (simp add: started_def RunCommand_def)

lemma esc_closes: "ShouldClose (key ''esc'') run_model = Inr True"
  by (simp add: ShouldClose_def run_model_def started_def RunCommand_def RunCommandWithEnv_def
      Let_def split_beta demo_fields default_config_def deref_keys_def Keys_def key_def
      DefaultKeybindings_def normalizeBinding_def HasPrefix_def)

text \<open>
  Claim C6, as the code has it.  \<open>RunCommandWithEnv\<close> returns no error: whatever the
  program, it returns the tick command and leaves the modal running with \<open>Err\<close> unset;
  \<open>RunCommand\<close> is the same call without an environment.  When the process fails to
  launch with the error \<open>e\<close>, \<open>executeCommandStreaming\<close>, running in the goroutine,
  appends no line and returns \<open>e\<close>, and the goroutine records it with \<open>setDone\<close>.  The
  first tick after that (with a limit of at least two lines) stops the modal: it sets
  \<open>Running\<close> to false and \<open>Err\<close> to \<open>e\<close>, puts the error line after the header, returns
  no further tick, and the raw output is empty.  When the user then closes the modal of
  a caller that set a callback, the callback is called once, with the empty output.
\<close>

theorem spawn_failure_reported_by_tick:
  "(let r = RunCommandWithEnv st h env name args m;
        m1 = fst r; g = fst (snd (snd r)); h1 = snd (snd (snd r));
        hf = sink_run grow (g_output g) h1 (goroutine_ops os g)
    in fst (snd r) = Some (Tick (ID m)) \<and> Running m1 = True \<and> Err m1 = None
       \<and> RunCommand st h name args m = RunCommandWithEnv st h None name args m
       \<and> (spawn_error (os (configured_cmd (Dir m) env name args)) = Some e \<longrightarrow>
             executeCommandStreaming os (Dir m) env name args = ([], Some e)
           \<and> goroutine_ops os g = [SetDone (Some e)]
           \<and> (2 \<le>s MaxLines m \<longrightarrow>
                 (\<exists>m' h'. handleTick st grow [] hf m1 = Inr (m', None, h')
                    \<and> Running m' = False \<and> Err m' = Some e
                    \<and> Lines m' = [Help st (''$ '' @ name @ '' '' @ Join args '' ''), [], [],
                                   Error st (''Error: '' @ e)]
                    \<and> fst (GetRawOutput h' m') = []))
           \<and> (ShouldClose k m1 = Inr True \<and> TerminalCallback tm = Some cb \<and> Terminal tm = m1
                 \<longrightarrow> (\<exists>tm' h'. UpdateTerminalView run_cb st grow hf k tm
                                  = Inr (tm', None, h', [(cb, [])])))))"
proof -
  let ?r = "RunCommandWithEnv st h env name args m"
  let ?m1 = "fst ?r" and ?g = "fst (snd (snd ?r))" and ?h1 = "snd (snd (snd ?r))"
  let ?p = "Suc (fresh h)"
  let ?hf = "sink_run grow ?p ?h1 (goroutine_ops os ?g)"
  have go: "g_output ?g = ?p" by (rule RunCommandWithEnv_facts)
  have a: "fst (snd ?r) = Some (Tick (ID m)) \<and> Running ?m1 = True \<and> Err ?m1 = None"
    by (simp add: RunCommandWithEnv_facts)
  have b: "RunCommand st h name args m = RunCommandWithEnv st h None name args m"
    by (simp add: RunCommand_def)
  have c: "executeCommandStreaming os (Dir m) env name args = ([], Some e)
           \<and> goroutine_ops os ?g = [SetDone (Some e)]
           \<and> (2 \<le>s MaxLines m \<longrightarrow>
                 (\<exists>m' h'. handleTick st grow [] ?hf ?m1 = Inr (m', None, h')
                    \<and> Running m' = False \<and> Err m' = Some e
                    \<and> Lines m' = [Help st (''$ '' @ name @ '' '' @ Join args '' ''), [], [],
                                   Error st (''Error: '' @ e)]
                    \<and> fst (GetRawOutput h' m') = []))
           \<and> (ShouldClose k ?m1 = Inr True \<and> TerminalCallback tm = Some cb \<and> Terminal tm = ?m1
                 \<longrightarrow> (\<exists>tm' h'. UpdateTerminalView run_cb st grow ?hf k tm
                                  = Inr (tm', None, h', [(cb, [])])))"
    if sp: "spawn_error (os (configured_cmd (Dir m) env name args)) = Some e"
  proof -
    have ex: "executeCommandStreaming os (Dir m) env name args = ([], Some e)"
      using sp by (rule spawn_error_exec[of os "Dir m" env name args e])
    note f1 = spawn_failure_tick(1)[where os = os and m = m and env = env and name = name
        and args = args and e = e and st = st and h = h, OF sp]
    note f = spawn_failure_tick(2-5)[where os = os and m = m and env = env and name = name
        and args = args and e = e and st = st and h = h and grow = grow, OF sp]
    have t: "\<exists>m' h'. handleTick st grow [] ?hf ?m1 = Inr (m', None, h')
                    \<and> Running m' = False \<and> Err m' = Some e
                    \<and> Lines m' = [Help st (''$ '' @ name @ '' '' @ Join args '' ''), [], [],
                                   Error st (''Error: '' @ e)]
                    \<and> fst (GetRawOutput h' m') = []"
      if M: "2 \<le>s MaxLines m"
    proof -
      have "2 \<le> sint (MaxLines m)" using M by (simp add: word_sle_eq)
      then show ?thesis
        by (rule spawn_failure_display[where os = os and m = m and env = env and name = name
          and args = args and e = e and st = st and h = h and grow = grow, OF sp])
    qed
    have u: "\<exists>tm' h'. UpdateTerminalView run_cb st grow ?hf k tm = Inr (tm', None, h', [(cb, [])])"
      if cl: "ShouldClose k ?m1 = Inr True \<and> TerminalCallback tm = Some cb \<and> Terminal tm = ?m1"
    proof -
      have c1: "ShouldClose k (Terminal tm) = Inr True" and c2: "TerminalCallback tm = Some cb"
        using cl by simp_all
      have c3: "output_ptr (Terminal tm) = Some ?p" using cl by (simp add: RunCommandWithEnv_facts)
      from close_calls_callback[OF c1 c2 c3 f(1), of run_cb st grow]
      show ?thesis unfolding f(2) by auto
    qed
    show ?thesis using ex f1 t u by blast
  qed
  show ?thesis unfolding Let_def go using a b c by blast
qed

theorem spawn_failure_reported_by_tick_witness:
  "spawn_error (os_not_found (configured_cmd (Dir demo_model) None ''prog'' []))
     = Some ''executable file not found''
   \<and> 2 \<le>s MaxLines demo_model
   \<and> ShouldClose (key ''esc'') run_model = Inr True
   \<and> TerminalCallback demo_todo = Some 0 \<and> Terminal demo_todo = run_model
   \<and> (\<exists>m' h'. handleTick plain double [] heap_not_found run_model = Inr (m', None, h')
          \<and> Running m' = False \<and> Err m' = Some ''executable file not found''
          \<and> Lines m' = [''$ prog '', [], [], ''Error: executable file not found'']
          \<and> fst (GetRawOutput h' m') = [])
   \<and> (\<exists>tm' h'. UpdateTerminalView (improve_callback (\<lambda>s. s)) plain double heap_not_found
                     (key ''esc'') demo_todo
                   = Inr (tm', None, h', [(0, [])]))"
proof -
  have M: "2 \<le>s MaxLines demo_model" by (simp add: demo_fields word_sle_eq)
  have cl: "ShouldClose (key ''esc'') run_model = Inr True \<and> TerminalCallback demo_todo = Some 0
      \<and> Terminal demo_todo = run_model"
    using esc_closes by (simp add: demo_todo_def)
  have hf: "sink_run double (g_output (fst (snd (snd started)))) (snd (snd (snd started)))
       (goroutine_ops os_not_found (fst (snd (snd started)))) = heap_not_found"
    using started_eval(9) by (simp add: heap_not_found_def run_goroutine_def run_heap_def)
  show ?thesis
    using spawn_failure_reported_by_tick[where st = plain
        and h = "snd (New heap0 default_config ''demo'')" and env = None and name = "''prog''"
        and args = "[]" and m = demo_model and grow = double and os = os_not_found
        and e = "''executable file not found''" and k = "key ''esc''" and tm = demo_todo
        and cb = 0 and run_cb = "improve_callback (\<lambda>s. s)"]
      not_found_spawn M cl
    unfolding Let_def started_unfold hf
    by (simp add: run_model_def plain_def)
qed

text \<open>
  Claim C6 as stated fails for a program that does not exist: \<open>RunCommand\<close> has
  returned the tick command \<open>Tick 1\<close>, so the tick loop is started, and the modal it
  leaves is running and carries no error.
\<close>

theorem spawn_failure_not_synchronous_counterexample:
  "spawn_error (os_not_found (configured_cmd (Dir demo_model) None ''prog'' []))
     = Some ''executable file not found''
   \<and> RunCommand plain (snd (New heap0 default_config ''demo'')) ''prog'' [] demo_model = started
   \<and> fst (snd started) = Some (Tick 1)
   \<and> Running (fst started) = True \<and> Err (fst started) = None"
  using not_found_spawn
  by (simp add: started_def RunCommand_def RunCommandWithEnv_facts demo_fields)

section \<open>The completion callback\<close>

lemma UpdateTerminalView_close:
  assumes "ShouldClose k (Terminal m) = Inr True"
  shows "\<exists>m' h'. UpdateTerminalView run_cb st grow h k m
           = Inr (m', None, h',
                  (case TerminalCallback m of None \<Rightarrow> []
                   | Some cb \<Rightarrow> [(cb, fst (GetRawOutput h (Terminal m)))]))
         \<and> TerminalCallback m' = None"
  using assms
  by (cases "TerminalCallback m") (simp_all add: UpdateTerminalView_def split_beta Let_def)

lemma UpdateTerminalView_other:
  assumes "ShouldClose k (Terminal m) \<noteq> Inr True"
    and "UpdateTerminalView run_cb st grow h k m = Inr (m', c, h', calls)"
  shows "calls = [] \<and> TerminalCallback m' = TerminalCallback m"
proof (cases "ShouldClose k (Terminal m)")
  case (Inl e)
  then show ?thesis using assms(2) by (simp add: UpdateTerminalView_def)
next
  case (Inr b)
  then have b: "b = False" using assms(1) by simp
  show ?thesis
    using assms(2) unfolding UpdateTerminalView_def Inr b
    by (auto split: sum.splits)
qed

lemma session_step_calls:
  assumes "session_step run_cb st grow h msg m = Inr (m', c, h', calls)"
  shows "(calls = [] \<and> TerminalCallback m' = TerminalCallback m)
         \<or> (TerminalCallback m' = None \<and> length calls \<le> 1)"
proof (cases msg)
  case (SessionKey k)
  then have u: "UpdateTerminalView run_cb st grow h k m = Inr (m', c, h', calls)"
    using assms by (simp add: session_step_def)
  show ?thesis
  proof (cases "ShouldClose k (Terminal m) = Inr True")
    case True
    from UpdateTerminalView_close[OF True, of run_cb st grow h] u
    show ?thesis by (auto split: option.splits)
  next
    case False
    then show ?thesis using UpdateTerminalView_other[OF False u] by simp
  qed
next
  case (SessionTick i between)
  then show ?thesis using assms by (auto simp: session_step_def split: sum.splits)
next
  case (SessionResize w hh)
  then show ?thesis using assms by (auto simp: session_step_def)
qed

lemma no_callback_no_calls:
  "TerminalCallback m = None \<Longrightarrow> session_calls run_cb st grow m steps = []"
proof (induction steps arbitrary: m)
  case Nil
  then show ?case by simp
next
  case (Cons s steps)
  obtain h msg where s: "s = (h, msg)" by (cases s)
  show ?case
  proof (cases "session_step run_cb st grow h msg m")
    case (Inl e)
    then show ?thesis by (simp add: s)
  next
    case (Inr res)
    obtain m' c h' calls where res: "res = (m', c, h', calls)" by (cases res)
    from session_step_calls[OF Inr[unfolded res]] Cons.prems
    have n: "TerminalCallback m' = None" by auto
    have e: "calls = []"
    proof (cases msg)
      case (SessionKey k)
      then have u: "UpdateTerminalView run_cb st grow h k m = Inr (m', c, h', calls)"
        using Inr res by (simp add: session_step_def)
      show ?thesis
      proof (cases "ShouldClose k (Terminal m) = Inr True")
        case True
        from UpdateTerminalView_close[OF True, of run_cb st grow h] u Cons.prems
        show ?thesis by auto
      next
        case False
        then show ?thesis using UpdateTerminalView_other[OF False u] by simp
      qed
    next
      case (SessionTick i between)
      then show ?thesis using Inr res by (auto simp: session_step_def split: sum.splits)
    next
      case (SessionResize w hh)
      then show ?thesis using Inr res by (auto simp: session_step_def)
    qed
    show ?thesis using Inr res e Cons.IH[OF n] by (simp add: s)
  qed
qed

lemma session_calls_at_most_once:
  "length (session_calls run_cb st grow m steps) \<le> 1"
proof (induction steps arbitrary: m)
  case Nil
  then show ?case by simp
next
  case (Cons s steps)
  obtain h msg where s: "s = (h, msg)" by (cases s)
  show ?case
  proof (cases "session_step run_cb st grow h msg m")
    case (Inl e)
    then show ?thesis by (simp add: s)
  next
    case (Inr res)
    obtain m' c h' calls where res: "res = (m', c, h', calls)" by (cases res)
    from session_step_calls[OF Inr[unfolded res]]
    show ?thesis
    proof
      assume "calls = [] \<and> TerminalCallback m' = TerminalCallback m"
      then show ?thesis using Inr res Cons.IH[of m'] by (simp add: s)
    next
      assume a: "TerminalCallback m' = None \<and> length calls \<le> 1"
      then have "session_calls run_cb st grow m' steps = []" by (simp add: no_callback_no_calls)
      then show ?thesis using Inr res a by (simp add: s)
    qed
  qed
qed

lemma j_scrolls: "ShouldClose (key ''j'') run_model = Inr False"
  by (simp add: ShouldClose_def run_model_def started_def RunCommand_def RunCommandWithEnv_def
      Let_def split_beta demo_fields default_config_def deref_keys_def Keys_def key_def
      DefaultKeybindings_def normalizeBinding_def HasPrefix_def)

lemma raw_two: "fst (GetRawOutput heap_two_lines run_model) = ''line1'' @ [CHR 0x0A] @ ''line2''"
  using GetRawOutput_eq[OF started_eval(1) two_heap(1)] by (simp add: two_heap)

text \<open>
  Claim C8.  Along every sequence of messages of a modal session (keys, ticks and
  resizes, each in whatever state the goroutines have left the heap) the callback is
  called at most once, whatever the callback does to the model it is given.  The call
  happens in the step that handles a close key, with the raw output of the modal as
  argument; that step clears the callback field after the call, so no later step of
  the session calls anything.  A key that does not close the modal calls nothing.
\<close>

theorem callback_at_most_once:
  "length (session_calls run_cb st grow m steps) \<le> 1
   \<and> (ShouldClose k (Terminal m) = Inr True \<longrightarrow>
        session_calls run_cb st grow m [(h, SessionKey k)]
          = (case TerminalCallback m of None \<Rightarrow> []
             | Some cb \<Rightarrow> [(cb, fst (GetRawOutput h (Terminal m)))])
      \<and> (\<exists>m' h'. UpdateTerminalView run_cb st grow h k m
                     = Inr (m', None, h', session_calls run_cb st grow m [(h, SessionKey k)])
             \<and> TerminalCallback m' = None
             \<and> session_calls run_cb st grow m' steps = []))
   \<and> (ShouldClose k2 (Terminal m) \<noteq> Inr True \<longrightarrow>
        session_calls run_cb st grow m [(h, SessionKey k2)] = [])"
proof (intro conjI impI)
  show "length (session_calls run_cb st grow m steps) \<le> 1" by (rule session_calls_at_most_once)
next
  assume c: "ShouldClose k (Terminal m) = Inr True"
  from UpdateTerminalView_close[OF c, of run_cb st grow h]
  obtain m' h' where u: "UpdateTerminalView run_cb st grow h k m
           = Inr (m', None, h',
                  (case TerminalCallback m of None \<Rightarrow> []
                   | Some cb \<Rightarrow> [(cb, fst (GetRawOutput h (Terminal m)))]))"
    and n: "TerminalCallback m' = None" by (elim exE conjE)
  show one: "session_calls run_cb st grow m [(h, SessionKey k)]
          = (case TerminalCallback m of None \<Rightarrow> []
             | Some cb \<Rightarrow> [(cb, fst (GetRawOutput h (Terminal m)))])"
    using u by (simp add: session_step_def)
  show "\<exists>m' h'. UpdateTerminalView run_cb st grow h k m
                     = Inr (m', None, h', session_calls run_cb st grow m [(h, SessionKey k)])
             \<and> TerminalCallback m' = None
             \<and> session_calls run_cb st grow m' steps = []"
    using u n no_callback_no_calls[OF n, of run_cb st grow steps] unfolding one by blast
next
  assume c: "ShouldClose k2 (Terminal m) \<noteq> Inr True"
  show "session_calls run_cb st grow m [(h, SessionKey k2)] = []"
  proof (cases "UpdateTerminalView run_cb st grow h k2 m")
    case (Inl e)
    then show ?thesis by (simp add: session_step_def)
  next
    case (Inr res)
    obtain m' c' h' calls where res: "res = (m', c', h', calls)" by (cases res)
    from UpdateTerminalView_other[OF c Inr[unfolded res]]
    show ?thesis using Inr res by (simp add: session_step_def)
  qed
qed

theorem callback_at_most_once_witness:
  "ShouldClose (key ''esc'') (Terminal demo_todo) = Inr True
   \<and> ShouldClose (key ''j'') (Terminal demo_todo) \<noteq> Inr True
   \<and> length (session_calls (improve_callback (\<lambda>s. s)) plain double demo_todo
        [(heap_two_lines, SessionKey (key ''j'')), (heap_two_lines, SessionTick 1 []),
         (heap_two_lines, SessionKey (key ''esc'')), (heap_two_lines, SessionKey (key ''esc''))])
       \<le> 1
   \<and> session_calls (improve_callback (\<lambda>s. s)) plain double demo_todo
        [(heap_two_lines, SessionKey (key ''esc''))]
       = [(0, ''line1'' @ [CHR 0x0A] @ ''line2'')]
   \<and> session_calls (improve_callback (\<lambda>s. s)) plain double demo_todo
        [(heap_two_lines, SessionKey (key ''j''))] = []"
proof -
  have a: "ShouldClose (key ''esc'') (Terminal demo_todo) = Inr True"
    using esc_closes by (simp add: demo_todo_def)
  have b: "ShouldClose (key ''j'') (Terminal demo_todo) \<noteq> Inr True"
    using j_scrolls by (simp add: demo_todo_def)
  have c: "TerminalCallback demo_todo = Some 0" "Terminal demo_todo = run_model"
    by (simp_all add: demo_todo_def)
  show ?thesis
    using callback_at_most_once[where run_cb = "improve_callback (\<lambda>s. s)" and st = plain
        and grow = double and m = demo_todo and k = "key ''esc''" and ?k2.0 = "key ''j''"
        and h = heap_two_lines
        and steps = "[(heap_two_lines, SessionKey (key ''j'')), (heap_two_lines, SessionTick 1 []),
         (heap_two_lines, SessionKey (key ''esc'')), (heap_two_lines, SessionKey (key ''esc''))]"]
      a b
    unfolding c option.case raw_two
    by blast
qed

section \<open>Outside the hypotheses\<close>

text \<open>
  A tick on a modal that has not started a command changes nothing, so its buffer is
  whatever it was.
\<close>

lemma handleTick_without_sink:
  "output_ptr m = None \<Longrightarrow> handleTick st grow between h m = Inr (m, None, h)"
  by (simp add: handleTick_def)

text \<open>
  With a negative limit the slice expression of the trimming step is out of range and
  the tick panics.
\<close>

lemma trim_lines_negative_limit:
  assumes neg: "MaxLines m <s 0" and L: "length (Lines m) < 2 ^ 62"
  shows "trim_lines m = Inl SliceBoundsOutOfRange"
proof -
  let ?low = "go_len (Lines m) - MaxLines m"
  have l63: "length (Lines m) < 2 ^ 63" using L by (rule less_trans) simp
  have li: "int (length (Lines m)) < 2 ^ 62"
    using L by (simp add: of_nat_less_numeral_power_cancel_iff)
  have gl: "sint (go_len (Lines m)) = int (length (Lines m))" using l63 by (rule sint_go_len)
  have mn: "sint (MaxLines m) < 0" using neg by (simp add: word_sless_alt)
  have lt: "MaxLines m <s go_len (Lines m)" using mn gl by (simp add: word_sless_alt)
  have "\<not> (0 \<le> sint ?low \<and> sint ?low \<le> int (length (Lines m)))"
  proof
    assume a: "0 \<le> sint ?low \<and> sint ?low \<le> int (length (Lines m))"
    have "(word_of_int (sint ?low) :: goint) = word_of_int (sint (go_len (Lines m)) - sint (MaxLines m))"
      by simp
    then have "take_bit 64 (sint ?low) = take_bit 64 (int (length (Lines m)) - sint (MaxLines m))"
      unfolding gl by (simp only: word_of_int_eq_iff) simp
    moreover have "take_bit 64 (sint ?low) = sint ?low"
      using a li by (intro take_bit_int_eq_self) simp_all
    moreover have "take_bit 64 (int (length (Lines m)) - sint (MaxLines m))
        = int (length (Lines m)) - sint (MaxLines m)"
      using mn li sint_range[of "MaxLines m"] by (intro take_bit_int_eq_self) simp_all
    ultimately show False using a mn by simp
  qed
  then have "slice_from (Lines m) ?low = Inl SliceBoundsOutOfRange"
    by (simp add: slice_from_def word_sle_eq gl)
  then show ?thesis using lt by (simp add: trim_lines_def)
qed

text \<open>
  The key operations do not pull in an offset that starts beyond the maximum: scrolling
  up from 5 with an empty buffer leaves 4, above the maximum 0.
\<close>

lemma offset_needs_start_in_bounds:
  "view_run [Key (key ''k'')] (demo_model\<lparr>ScrollPos := 5\<rparr>)
     = Inr (demo_model\<lparr>ScrollPos := 4, AutoScroll := False\<rparr>)
   \<and> maxScroll (demo_model\<lparr>ScrollPos := 4, AutoScroll := False\<rparr>) = 0"
  by (simp add: view_step_def handleKey_def default_config_def deref_keys_def Keys_def Let_def
      key_def DefaultKeybindings_def normalizeBinding_def HasPrefix_def scrollUp_def demo_fields
      maxScroll_def visibleLines_def go_len_def word_sless_alt)

text \<open>
  With fewer than six rows the visible line count is negative and paging up moves the
  offset forward: with a height of 0 and an empty buffer, two page-ups take the offset
  from 0 to 12, above the maximum 6.  \<open>New\<close> and \<open>SetSize\<close> never produce such a height.
\<close>

lemma offset_needs_six_rows:
  "offset_in_bounds (demo_model\<lparr>Height := 0\<rparr>)
   \<and> view_run [Key (key ''ctrl+u''), Key (key ''ctrl+u'')] (demo_model\<lparr>Height := 0\<rparr>)
     = Inr (demo_model\<lparr>Height := 0, ScrollPos := 12, AutoScroll := False\<rparr>)
   \<and> maxScroll (demo_model\<lparr>Height := 0, ScrollPos := 12, AutoScroll := False\<rparr>) = 6"
  by (simp add: view_step_def handleKey_def default_config_def deref_keys_def Keys_def Let_def
      key_def DefaultKeybindings_def normalizeBinding_def HasPrefix_def Matches_def pageUp_def
      demo_fields offset_in_bounds_def word_sle_eq
      maxScroll_def visibleLines_def go_len_def word_sless_alt)

end
